theory Spec2Isabelle
  imports Main "HOL-Library.Word"
begin

unbundle bit_operations_syntax

chapter \<open>A shallow embedding of the gopushpixels protocol core\<close>

text \<open>
  The development follows the Go packages \<^verbatim>\<open>pixel\<close>, \<^verbatim>\<open>support/byteslicereader\<close>,
  \<^verbatim>\<open>support/dataio\<close>, \<^verbatim>\<open>protocol/pixelpusher\<close> and \<^verbatim>\<open>device\<close>. Part I translates the
  source functions; Part II states and proves their properties.

  Conventions. A Go \<^verbatim>\<open>[]byte\<close> is a list of 8-bit words. Go's \<^verbatim>\<open>int\<close> is the 64-bit
  two's complement integer of the usual targets: it is modelled as \<^typ>\<open>int\<close> and the
  wrap-around of a multiplication is written out with \<open>wrap64\<close> where an operand comes
  from the caller. A run-time panic is the left injection of a sum type.
\<close>

section \<open>Part I: the embedding\<close>

subsection \<open>Machine integers and panics\<close>

type_synonym byte = "8 word"

definition wrap64 :: "int \<Rightarrow> int" where
  "wrap64 x = (x + 2 ^ 63) mod 2 ^ 64 - 2 ^ 63"

datatype panic = IndexOutOfRange | SliceBoundsOutOfRange

subsection \<open>Package pixel: pixels and the luminance table (pixel/pixel.go)\<close>

text \<open>\<^verbatim>\<open>pixelLinearExp\<close>, the 256-entry table, copied entry by entry in rows of 16.\<close>

definition pixelLinearExp :: "byte list" where
  "pixelLinearExp = concat [
    [0, 0, 0, 0, 0, 0, 0, 0, 0, 0, 0, 0, 0, 0, 0, 0],
    [0, 0, 0, 1, 1, 1, 1, 1, 1, 1, 1, 1, 1, 1, 1, 1],
    [1, 1, 1, 1, 1, 1, 1, 1, 1, 1, 1, 2, 2, 2, 2, 2],
    [2, 2, 2, 2, 2, 2, 2, 2, 2, 2, 3, 3, 3, 3, 3, 3],
    [3, 3, 3, 3, 3, 3, 4, 4, 4, 4, 4, 4, 4, 4, 4, 5],
    [5, 5, 5, 5, 5, 5, 5, 6, 6, 6, 6, 6, 6, 7, 7, 7],
    [7, 7, 7, 8, 8, 8, 8, 8, 9, 9, 9, 9, 9, 10, 10, 10],
    [10, 11, 11, 11, 11, 12, 12, 12, 13, 13, 13, 14, 14, 14, 14, 15],
    [15, 16, 16, 16, 17, 17, 17, 18, 18, 19, 19, 20, 20, 20, 21, 21],
    [22, 22, 23, 23, 24, 25, 25, 26, 26, 27, 27, 28, 29, 29, 30, 31],
    [31, 32, 33, 34, 34, 35, 36, 37, 38, 38, 39, 40, 41, 42, 43, 44],
    [45, 46, 47, 48, 49, 50, 51, 52, 54, 55, 56, 57, 59, 60, 61, 63],
    [64, 65, 67, 68, 70, 72, 73, 75, 76, 78, 80, 82, 83, 85, 87, 89],
    [91, 93, 95, 97, 99, 102, 104, 106, 109, 111, 114, 116, 119, 121, 124, 127],
    [129, 132, 135, 138, 141, 144, 148, 151, 154, 158, 161, 165, 168, 172, 176, 180],
    [184, 188, 192, 196, 201, 205, 209, 214, 219, 224, 229, 234, 239, 244, 249, 255]]"

record P =
  Red :: byte
  Green :: byte
  Blue :: byte
  Orange :: byte
  White :: byte

text \<open>The zero value of \<^verbatim>\<open>P\<close>, which a Go function with a named result returns on a bare
  \<^verbatim>\<open>return\<close>.\<close>

definition zeroP :: P where
  "zeroP = \<lparr>Red = 0, Green = 0, Blue = 0, Orange = 0, White = 0\<rparr>"

text \<open>\<^verbatim>\<open>pixelLinearExp[b]\<close>: the index is a byte, so it is always inside the array.\<close>

definition lookupExp :: "byte \<Rightarrow> byte" where
  "lookupExp b = pixelLinearExp ! unat b"

definition P_AntiLog :: "P \<Rightarrow> P" where
  "P_AntiLog p = \<lparr>Red = lookupExp (Red p), Green = lookupExp (Green p),
     Blue = lookupExp (Blue p), Orange = lookupExp (Orange p), White = lookupExp (White p)\<rparr>"

subsection \<open>Package pixel: the buffer (pixel/buffer.go)\<close>

datatype BufferLayout = BufferRGB | BufferRGBOW

record Buffer =
  Layout :: BufferLayout
  buf :: "byte list"

definition pixelSize :: "Buffer \<Rightarrow> int" where
  "pixelSize pb = (case Layout pb of BufferRGB \<Rightarrow> 3 | BufferRGBOW \<Rightarrow> 9)"

text \<open>\<^verbatim>\<open>Len\<close>: both operands are non-negative, so Go's truncating division is \<open>div\<close>.\<close>

definition Len :: "Buffer \<Rightarrow> int" where
  "Len pb = int (length (buf pb)) div pixelSize pb"

definition UseBytes :: "Buffer \<Rightarrow> byte list \<Rightarrow> Buffer" where
  "UseBytes pb b = pb\<lparr>buf := b\<rparr>"

text \<open>
  \<^verbatim>\<open>Pixel\<close>. The guard looks at the first byte of the pixel only. The reads
  \<^verbatim>\<open>buf[offset], buf[offset+1], buf[offset+2]\<close> and, for RGBOW, \<^verbatim>\<open>buf[offset+3]\<close> and
  \<^verbatim>\<open>buf[offset+6]\<close> happen in increasing index order, so the first one that panics is
  decided by the largest index of each group.
\<close>

definition Pixel :: "Buffer \<Rightarrow> int \<Rightarrow> panic + P" where
  "Pixel pb i =
     (let offset = wrap64 (i * pixelSize pb); b = buf pb in
      if offset < 0 \<or> offset \<ge> int (length b) then Inr zeroP
      else if \<not> offset + 2 < int (length b) then Inl IndexOutOfRange
      else (case Layout pb of
              BufferRGB \<Rightarrow>
                Inr \<lparr>Red = b ! nat offset, Green = b ! nat (offset + 1),
                     Blue = b ! nat (offset + 2), Orange = 0, White = 0\<rparr>
            | BufferRGBOW \<Rightarrow>
                if \<not> offset + 6 < int (length b) then Inl IndexOutOfRange
                else Inr \<lparr>Red = b ! nat offset, Green = b ! nat (offset + 1),
                          Blue = b ! nat (offset + 2), Orange = b ! nat (offset + 3),
                          White = b ! nat (offset + 6)\<rparr>))"

text \<open>
  \<^verbatim>\<open>SetPixel\<close>. The writes go to increasing indices; a write past the end panics, and
  the model then gives the panic instead of the half-written buffer.
\<close>

definition SetPixel :: "Buffer \<Rightarrow> int \<Rightarrow> P \<Rightarrow> panic + Buffer" where
  "SetPixel pb i p =
     (let offset = wrap64 (i * pixelSize pb); b = buf pb in
      if offset < 0 \<or> offset \<ge> int (length b) then Inr pb
      else if \<not> offset + 2 < int (length b) then Inl IndexOutOfRange
      else
        (let b3 = b[nat offset := Red p, nat (offset + 1) := Green p,
                    nat (offset + 2) := Blue p] in
         case Layout pb of
           BufferRGB \<Rightarrow> Inr (pb\<lparr>buf := b3\<rparr>)
         | BufferRGBOW \<Rightarrow>
             if \<not> offset + 8 < int (length b) then Inl IndexOutOfRange
             else Inr (pb\<lparr>buf := b3[nat (offset + 3) := Orange p, nat (offset + 4) := Orange p,
                                      nat (offset + 5) := Orange p, nat (offset + 6) := White p,
                                      nat (offset + 7) := White p, nat (offset + 8) := White p]\<rparr>)))"

text \<open>
  \<^verbatim>\<open>AntiLog\<close>: the loop over the byte index \<open>i\<close> with the counter \<^verbatim>\<open>pixelIndex\<close>,
  including the branches that would skip bytes. \<open>antiLogStep\<close> is the \<^verbatim>\<open>switch\<close> of the
  loop body and returns the updated \<open>(i, pixelIndex)\<close>; the loop's own \<^verbatim>\<open>i++\<close> follows.
\<close>

definition antiLogStep :: "BufferLayout \<Rightarrow> nat \<Rightarrow> nat \<Rightarrow> nat \<times> nat" where
  "antiLogStep lay i pixelIndex =
     (case lay of
        BufferRGB \<Rightarrow> (i, if pixelIndex > 2 then 0 else pixelIndex)
      | BufferRGBOW \<Rightarrow>
          (let (i1, p1) = (if pixelIndex > 3 then (i + 2, pixelIndex + 1) else (i, pixelIndex))
           in (i1, if p1 > 4 then 0 else p1)))"

function AntiLog_loop :: "BufferLayout \<Rightarrow> nat \<Rightarrow> nat \<Rightarrow> byte list \<Rightarrow> byte list" where
  "AntiLog_loop lay i pixelIndex b =
     (if i < length b then
        AntiLog_loop lay (Suc (fst (antiLogStep lay i pixelIndex)))
          (snd (antiLogStep lay i pixelIndex)) (b[i := lookupExp (b ! i)])
      else b)"
  by pat_completeness auto
termination
  by (relation "measure (\<lambda>(lay, i, pixelIndex, b). length b - i)")
     (auto simp: antiLogStep_def split: BufferLayout.splits if_splits)

declare AntiLog_loop.simps [simp del]

definition AntiLog :: "Buffer \<Rightarrow> Buffer" where
  "AntiLog pb = pb\<lparr>buf := AntiLog_loop (Layout pb) 0 0 (buf pb)\<rparr>"

text \<open>What the specification says \<^verbatim>\<open>antilog()\<close> is: the table applied to every wire byte,
  whatever the layout.\<close>

definition antilog_spec :: "Buffer \<Rightarrow> Buffer" where
  "antilog_spec pb = pb\<lparr>buf := map lookupExp (buf pb)\<rparr>"

subsection \<open>Errors\<close>

text \<open>
  Go errors as values. \<open>Wrap msg e\<close> is \<^verbatim>\<open>errors.Wrap(e, msg)\<close> (for \<^verbatim>\<open>Wrapf\<close> and
  \<^verbatim>\<open>Errorf\<close> the message keeps the constant part of the format, the constructor's
  arguments the formatted values). \<open>ErrSend\<close> stands for whatever error a datagram
  sender returns, and \<open>Panic\<close> for a run-time panic.
\<close>

datatype error =
    EOF
  | ErrUnexpectedEOF
  | ErrSeekOutsideBounds
  | ErrStripIndexExceeds byte int
  | ErrCommandMagic "byte list"
  | ErrUnknownCommand byte
  | ErrPacketSize int int
  | ErrStripDataTooLarge
  | ErrNoRoute
  | ErrSend nat
  | Wrap string error
  | Panic panic

subsection \<open>Package byteslicereader (support/byteslicereader/byteslicereader.go)\<close>

text \<open>
  The reader \<^verbatim>\<open>R\<close>. The position is unexported, starts at 0 and is only moved by the
  methods below, none of which makes it negative, so it is a natural number. \<^verbatim>\<open>AlwaysCopy\<close>
  decides whether a returned slice aliases the backing buffer; the bytes returned are the
  same either way, and lists are values, so the flag does not change any result here.
\<close>

record R =
  Buffer :: "byte list"
  AlwaysCopy :: bool
  pos :: nat

definition newR :: "byte list \<Rightarrow> R" where
  "newR b = \<lparr>Buffer = b, AlwaysCopy = False, pos = 0\<rparr>"

definition remainingSlice :: "R \<Rightarrow> byte list" where
  "remainingSlice r = (if pos r \<ge> length (Buffer r) then [] else drop (pos r) (Buffer r))"

definition Remaining :: "R \<Rightarrow> int" where
  "Remaining r = int (length (remainingSlice r))"

text \<open>\<^verbatim>\<open>Read(b)\<close>, with \<open>n = len(b)\<close>: the bytes copied into \<open>b\<close>, the error, the reader.\<close>

definition R_Read :: "R \<Rightarrow> nat \<Rightarrow> byte list \<times> error option \<times> R" where
  "R_Read r n =
     (let remaining = remainingSlice r;
          amt = min n (length remaining);
          r' = r\<lparr>pos := pos r + amt\<rparr>
      in (take amt remaining, if pos r' \<ge> length (Buffer r') then Some EOF else None, r'))"

definition ReadByte :: "R \<Rightarrow> (error + byte) \<times> R" where
  "ReadByte r =
     (if pos r \<ge> length (Buffer r) then (Inl EOF, r)
      else (Inr (Buffer r ! pos r), r\<lparr>pos := pos r + 1\<rparr>))"

datatype whence = SeekStart | SeekCurrent | SeekEnd

text \<open>\<^verbatim>\<open>Seek\<close>; the position it returns is the \<open>pos\<close> of the reader returned.\<close>

definition Seek :: "R \<Rightarrow> int \<Rightarrow> whence \<Rightarrow> error option \<times> R" where
  "Seek r offset w =
     (let len = int (length (Buffer r));
          newPos = (case w of SeekStart \<Rightarrow> offset
                    | SeekEnd \<Rightarrow> offset + len - 1
                    | SeekCurrent \<Rightarrow> int (pos r) + offset)
      in if w = SeekEnd \<and> offset > 0 then
           (if len = 0 then (None, r\<lparr>pos := nat offset\<rparr>) else (None, r\<lparr>pos := nat newPos\<rparr>))
         else if newPos < 0 \<or> newPos \<ge> len then (Some ErrSeekOutsideBounds, r)
         else (None, r\<lparr>pos := nat newPos\<rparr>))"

text \<open>\<^verbatim>\<open>Peek(n)\<close> and \<^verbatim>\<open>Next(n)\<close>: slicing \<^verbatim>\<open>v[:n]\<close> with a negative \<open>n\<close> panics.\<close>

definition Peek :: "R \<Rightarrow> int \<Rightarrow> panic + byte list" where
  "Peek r n =
     (let v = remainingSlice r in
      if n < int (length v) then
        (if n < 0 then Inl SliceBoundsOutOfRange else Inr (take (nat n) v))
      else Inr v)"

definition PeekByte :: "R \<Rightarrow> error + byte" where
  "PeekByte r = (case remainingSlice r of [] \<Rightarrow> Inl EOF | b # _ \<Rightarrow> Inr b)"

definition Next :: "R \<Rightarrow> int \<Rightarrow> panic + (byte list \<times> error option \<times> R)" where
  "Next r n =
     (let v = remainingSlice r in
      if n < int (length v) then
        (if n < 0 then Inl SliceBoundsOutOfRange
         else Inr (take (nat n) v, None, r\<lparr>pos := pos r + nat n\<rparr>))
      else Inr (v, Some EOF, r\<lparr>pos := pos r + length v\<rparr>))"

subsection \<open>Reading helpers: io.ReadFull, dataio.ReadFull, ioutil.ReadAll\<close>

lemma R_Read_progress:
  assumes "R_Read r n = (bs, None, r')" and "0 < n"
  shows "0 < length bs" and "Buffer r' = Buffer r"
  using assms
  by (auto simp: R_Read_def remainingSlice_def Let_def min_def split: if_splits)

text \<open>
  \<^verbatim>\<open>io.ReadFull(r, buf)\<close> of the Go library, that is \<^verbatim>\<open>io.ReadAtLeast(r, buf, len(buf))\<close>:
  \<^verbatim>\<open>for n < min && err == nil { nn, err = r.Read(buf[n:]); n += nn }\<close>, after which a full
  read clears the error and a partial non-empty read turns \<^verbatim>\<open>io.EOF\<close> into
  \<^verbatim>\<open>io.ErrUnexpectedEOF\<close>. \<open>acc\<close> is \<^verbatim>\<open>buf[:n]\<close>.
\<close>

function ReadAtLeast_loop :: "R \<Rightarrow> nat \<Rightarrow> byte list \<Rightarrow> byte list \<times> error option \<times> R" where
  "ReadAtLeast_loop r len acc =
     (if length acc < len then
        (case R_Read r (len - length acc) of
           (bs, None, r') \<Rightarrow> ReadAtLeast_loop r' len (acc @ bs)
         | (bs, Some e, r') \<Rightarrow> (acc @ bs, Some e, r'))
      else (acc, None, r))"
  by pat_completeness auto
termination
proof (relation "measure (\<lambda>(r, len, acc). len - length acc)", goal_cases)
  case 1
  show ?case by simp
next
  case (2 r len acc x y xa ya)
  then have "R_Read r (len - length acc) = (x, None, ya)" by (metis prod.collapse prod.inject)
  from R_Read_progress(1) [OF this] 2(1) show ?case
    by (simp del: length_greater_0_conv)
qed

declare ReadAtLeast_loop.simps [simp del]

definition io_ReadFull :: "R \<Rightarrow> nat \<Rightarrow> byte list \<times> error option \<times> R" where
  "io_ReadFull r len =
     (case ReadAtLeast_loop r len [] of
        (bs, err, r') \<Rightarrow>
          if length bs \<ge> len then (bs, None, r')
          else if length bs > 0 \<and> err = Some EOF then (bs, Some ErrUnexpectedEOF, r')
          else (bs, err, r'))"

text \<open>
  \<^verbatim>\<open>dataio.ReadFull\<close> (support/dataio): reads until the buffer is full; an error ends the
  loop and is returned as it is, except \<^verbatim>\<open>io.EOF\<close> together with the last byte.
  \<open>acc\<close> is the filled part of \<open>buf\<close>, \<open>len - length acc\<close> the length of \<^verbatim>\<open>remaining\<close>.
\<close>

function dataio_ReadFull_loop :: "R \<Rightarrow> nat \<Rightarrow> byte list \<Rightarrow> byte list \<times> error option \<times> R" where
  "dataio_ReadFull_loop r len acc =
     (if len - length acc > 0 then
        (case R_Read r (len - length acc) of
           (bs, None, r') \<Rightarrow> dataio_ReadFull_loop r' len (acc @ bs)
         | (bs, Some e, r') \<Rightarrow>
             if e = EOF \<and> len - length (acc @ bs) = 0 then (acc @ bs, None, r')
             else (acc @ bs, Some e, r'))
      else (acc, None, r))"
  by pat_completeness auto
termination
proof (relation "measure (\<lambda>(r, len, acc). len - length acc)", goal_cases)
  case 1
  show ?case by simp
next
  case (2 r len acc x y xa ya)
  then have "R_Read r (len - length acc) = (x, None, ya)" by (metis prod.collapse prod.inject)
  from R_Read_progress(1) [OF this] 2(1) show ?case
    by (simp del: length_greater_0_conv)
qed

declare dataio_ReadFull_loop.simps [simp del]

definition dataio_ReadFull :: "R \<Rightarrow> nat \<Rightarrow> byte list \<times> error option \<times> R" where
  "dataio_ReadFull r len = dataio_ReadFull_loop r len []"

text \<open>
  \<^verbatim>\<open>ioutil.ReadAll(r)\<close> of the Go library reads until \<^verbatim>\<open>io.EOF\<close> and returns what it read
  with a nil error; on an \<^verbatim>\<open>R\<close>, whose \<^verbatim>\<open>Read\<close> has no other error, that is the rest
  of the buffer.
\<close>

definition ReadAll :: "R \<Rightarrow> byte list \<times> R" where
  "ReadAll r = (remainingSlice r, r\<lparr>pos := pos r + length (remainingSlice r)\<rparr>)"

subsection \<open>Package pixel: Buffer.ReadFrom\<close>

text \<open>\<^verbatim>\<open>ReadFrom(r, size)\<close>: the buffer on success, and the reader as \<^verbatim>\<open>Next\<close> left it.\<close>

definition ReadFrom :: "Buffer \<Rightarrow> R \<Rightarrow> int \<Rightarrow> (error + Buffer) \<times> R" where
  "ReadFrom pb r size' =
     (let pixelBufSize = wrap64 (size' * pixelSize pb) in
      case Next r pixelBufSize of
        Inl p \<Rightarrow> (Inl (Panic p), r)
      | Inr (b, err, r') \<Rightarrow>
          (let err' = (if err = Some EOF \<and> int (length b) = pixelBufSize then None else err) in
           case err' of
             Some e \<Rightarrow> (Inl (Wrap ''could not read pixel buffer'' e), r')
           | None \<Rightarrow> (Inr (pb\<lparr>buf := b\<rparr>), r')))"

subsection \<open>Byte order (encoding/binary)\<close>

text \<open>
  \<^verbatim>\<open>binary.LittleEndian\<close> and \<^verbatim>\<open>binary.BigEndian\<close> of the Go library, as the struct packer
  and \<^verbatim>\<open>binary.Read\<close> use them. The decoders are applied to slices of exactly the
  field's size.
\<close>

definition PutUint16LE :: "16 word \<Rightarrow> byte list" where
  "PutUint16LE v = [ucast v, ucast (drop_bit 8 v)]"

definition Uint16LE :: "byte list \<Rightarrow> 16 word" where
  "Uint16LE b = ucast (b ! 0) OR push_bit 8 (ucast (b ! 1))"

definition PutUint32LE :: "32 word \<Rightarrow> byte list" where
  "PutUint32LE v = [ucast v, ucast (drop_bit 8 v), ucast (drop_bit 16 v), ucast (drop_bit 24 v)]"

definition Uint32LE :: "byte list \<Rightarrow> 32 word" where
  "Uint32LE b = ucast (b ! 0) OR push_bit 8 (ucast (b ! 1)) OR push_bit 16 (ucast (b ! 2))
     OR push_bit 24 (ucast (b ! 3))"

definition PutUint64LE :: "64 word \<Rightarrow> byte list" where
  "PutUint64LE v = [ucast v, ucast (drop_bit 8 v), ucast (drop_bit 16 v), ucast (drop_bit 24 v),
     ucast (drop_bit 32 v), ucast (drop_bit 40 v), ucast (drop_bit 48 v), ucast (drop_bit 56 v)]"

definition Uint64LE :: "byte list \<Rightarrow> 64 word" where
  "Uint64LE b = ucast (b ! 0) OR push_bit 8 (ucast (b ! 1)) OR push_bit 16 (ucast (b ! 2))
     OR push_bit 24 (ucast (b ! 3)) OR push_bit 32 (ucast (b ! 4)) OR push_bit 40 (ucast (b ! 5))
     OR push_bit 48 (ucast (b ! 6)) OR push_bit 56 (ucast (b ! 7))"

definition PutUint32BE :: "32 word \<Rightarrow> byte list" where
  "PutUint32BE v = [ucast (drop_bit 24 v), ucast (drop_bit 16 v), ucast (drop_bit 8 v), ucast v]"

definition Uint32BE :: "byte list \<Rightarrow> 32 word" where
  "Uint32BE b = ucast (b ! 3) OR push_bit 8 (ucast (b ! 2)) OR push_bit 16 (ucast (b ! 1))
     OR push_bit 24 (ucast (b ! 0))"

subsection \<open>The struct packer (github.com/lunixbochs/struc)\<close>

text \<open>
  \<^verbatim>\<open>struc.Unpack\<close> is a dependency of the repository. It walks the fields of the struct
  in declaration order and reads each field's bytes with \<^verbatim>\<open>io.ReadFull\<close>, returning the
  first error unchanged; a field tagged \<^verbatim>\<open>[2]pad\<close> is read and dropped. \<^verbatim>\<open>struc.Pack\<close>
  writes the fields in the same order (zero bytes for a pad). \<open>struc_Unpack r sizes\<close> reads
  fields of the given byte sizes; each struct below decodes its fields from the result.
\<close>

fun struc_Unpack :: "R \<Rightarrow> nat list \<Rightarrow> (error + byte list list) \<times> R" where
  "struc_Unpack r [] = (Inr [], r)"
| "struc_Unpack r (n # ns) =
     (case io_ReadFull r n of
        (bs, Some e, r') \<Rightarrow> (Inl e, r')
      | (bs, None, r') \<Rightarrow>
          (case struc_Unpack r' ns of
             (Inl e, r'') \<Rightarrow> (Inl e, r'')
           | (Inr fs, r'') \<Rightarrow> (Inr (bs # fs), r'')))"

subsection \<open>Package pixelpusher: commands (protocol/pixelpusher/command.go)\<close>

definition CommandMagic :: "byte list" where
  "CommandMagic = [0x40, 0x09, 0x2d, 0xa6, 0x15, 0xa5, 0xdd, 0xe5,
                   0x6a, 0x9d, 0x4d, 0x5a, 0xcf, 0x09, 0xaf, 0x50]"

text \<open>
  The five command structs. A Go string is a sequence of bytes. The arguments of
  \<open>LEDConfigureCommand\<close> are, in order, \<^verbatim>\<open>NumStrips\<close>, \<^verbatim>\<open>StripLength\<close>, \<^verbatim>\<open>StripType\<close>,
  \<^verbatim>\<open>ColourOrder\<close>, \<^verbatim>\<open>Group\<close>, \<^verbatim>\<open>Controller\<close>, \<^verbatim>\<open>ArtNetUniverse\<close>, \<^verbatim>\<open>ArtNetChannel\<close>;
  those of \<open>WiFiConfigureCommand\<close> are \<^verbatim>\<open>SSID\<close>, \<^verbatim>\<open>Key\<close>, \<^verbatim>\<open>Security\<close>; those of
  \<open>StripBrightnessSetCommand\<close> are \<^verbatim>\<open>StripNumber\<close>, \<^verbatim>\<open>Parameter\<close>.
\<close>

datatype Command =
    ResetCommand
  | GlobalBrightnessSetCommand "16 word"
  | StripBrightnessSetCommand byte "16 word"
  | WiFiConfigureCommand "byte list" "byte list" byte
  | LEDConfigureCommand "32 word" "32 word" "64 word" "64 word"
      "16 word" "16 word" "16 word" "16 word"

fun CommandID :: "Command \<Rightarrow> byte" where
  "CommandID ResetCommand = 0x01"
| "CommandID (GlobalBrightnessSetCommand _) = 0x02"
| "CommandID (WiFiConfigureCommand _ _ _) = 0x03"
| "CommandID (LEDConfigureCommand _ _ _ _ _ _ _ _) = 0x04"
| "CommandID (StripBrightnessSetCommand _ _) = 0x05"

text \<open>\<^verbatim>\<open>WriteContentTo\<close>: the bytes written. The writers of this package are
  \<^verbatim>\<open>bytes.Buffer\<close>s, whose writes do not fail.\<close>

fun WriteContentTo :: "Command \<Rightarrow> byte list" where
  "WriteContentTo ResetCommand = []"
| "WriteContentTo (GlobalBrightnessSetCommand parameter) = PutUint16LE parameter"
| "WriteContentTo (StripBrightnessSetCommand stripNumber parameter) =
     [stripNumber] @ PutUint16LE parameter"
| "WriteContentTo (WiFiConfigureCommand ssid key security) =
     (ssid @ [0x00]) @ (key @ [0x00]) @ [security]"
| "WriteContentTo (LEDConfigureCommand numStrips stripLength stripType colourOrder
       grp controller artNetUniverse artNetChannel) =
     PutUint32LE numStrips @ PutUint32LE stripLength @ PutUint64LE stripType @
     PutUint64LE colourOrder @ PutUint16LE grp @ PutUint16LE controller @
     PutUint16LE artNetUniverse @ PutUint16LE artNetChannel"

definition WriteCommand :: "Command \<Rightarrow> bool \<Rightarrow> byte list" where
  "WriteCommand cmd writeMagic =
     (if writeMagic then CommandMagic else []) @ [CommandID cmd] @ WriteContentTo cmd"

lemma ReadByte_progress:
  assumes "ReadByte r = (Inr v, r')"
  shows "Buffer r' = Buffer r" and "pos r' = pos r + 1" and "pos r < length (Buffer r)"
  using assms by (auto simp: ReadByte_def split: if_splits)

text \<open>\<^verbatim>\<open>readNULLTerminatedString\<close>, the closure of \<^verbatim>\<open>WiFiConfigureCommand.LoadContentFrom\<close>;
  \<open>acc\<close> is \<^verbatim>\<open>stringBytes\<close>.\<close>

function readNULLTerminatedString :: "R \<Rightarrow> byte list \<Rightarrow> (error + byte list) \<times> R" where
  "readNULLTerminatedString r acc =
     (case ReadByte r of
        (Inl e, r') \<Rightarrow> (Inl e, r')
      | (Inr v, r') \<Rightarrow>
          if v = 0x00 then (Inr acc, r') else readNULLTerminatedString r' (acc @ [v]))"
  by pat_completeness auto
termination
proof (relation "measure (\<lambda>(r, acc). length (Buffer r) - pos r)", goal_cases)
  case 1
  show ?case by simp
next
  case (2 r acc x y v)
  then have "ReadByte r = (Inr v, y)" by simp
  from ReadByte_progress [OF this] show ?case by simp
qed

declare readNULLTerminatedString.simps [simp del]

text \<open>\<^verbatim>\<open>LoadContentFrom\<close>, by command byte: the receiver is a fresh struct of the kind the
  byte selects.\<close>

definition LoadContentFrom :: "byte \<Rightarrow> R \<Rightarrow> (error + Command) \<times> R" where
  "LoadContentFrom cmdByte r =
     (if cmdByte = 0x01 then (Inr ResetCommand, r)
      else if cmdByte = 0x02 then
        (case struc_Unpack r [2] of
           (Inl e, r') \<Rightarrow> (Inl e, r')
         | (Inr fs, r') \<Rightarrow> (Inr (GlobalBrightnessSetCommand (Uint16LE (fs ! 0))), r'))
      else if cmdByte = 0x05 then
        (case struc_Unpack r [1, 2] of
           (Inl e, r') \<Rightarrow> (Inl e, r')
         | (Inr fs, r') \<Rightarrow> (Inr (StripBrightnessSetCommand (fs ! 0 ! 0) (Uint16LE (fs ! 1))), r'))
      else if cmdByte = 0x03 then
        (case readNULLTerminatedString r [] of
           (Inl e, r1) \<Rightarrow> (Inl e, r1)
         | (Inr ssid, r1) \<Rightarrow>
             (case readNULLTerminatedString r1 [] of
                (Inl e, r2) \<Rightarrow> (Inl e, r2)
              | (Inr key, r2) \<Rightarrow>
                  (case ReadByte r2 of
                     (Inl e, r3) \<Rightarrow> (Inl e, r3)
                   | (Inr security, r3) \<Rightarrow> (Inr (WiFiConfigureCommand ssid key security), r3))))
      else
        (case struc_Unpack r [4, 4, 8, 8, 2, 2, 2, 2] of
           (Inl e, r') \<Rightarrow> (Inl e, r')
         | (Inr fs, r') \<Rightarrow>
             (Inr (LEDConfigureCommand (Uint32LE (fs ! 0)) (Uint32LE (fs ! 1))
                     (Uint64LE (fs ! 2)) (Uint64LE (fs ! 3)) (Uint16LE (fs ! 4))
                     (Uint16LE (fs ! 5)) (Uint16LE (fs ! 6)) (Uint16LE (fs ! 7))), r')))"

text \<open>\<^verbatim>\<open>ReadCommand(r, consumeMagic)\<close>. \<^verbatim>\<open>R\<close> is an \<^verbatim>\<open>io.ByteReader\<close>, so
  \<^verbatim>\<open>dataio.MakeReader\<close> returns it unchanged.\<close>

definition ReadCommand :: "R \<Rightarrow> bool \<Rightarrow> (error + Command) \<times> R" where
  "ReadCommand r consumeMagic =
     (case (if consumeMagic then
              (case dataio_ReadFull r (length CommandMagic) of
                 (b, Some e, r') \<Rightarrow> (Some e, r')
               | (b, None, r') \<Rightarrow>
                   if b \<noteq> CommandMagic then (Some (ErrCommandMagic b), r') else (None, r'))
            else (None, r)) of
        (Some e, r1) \<Rightarrow> (Inl e, r1)
      | (None, r1) \<Rightarrow>
          (case ReadByte r1 of
             (Inl e, r2) \<Rightarrow> (Inl (Wrap ''while reading command byte'' e), r2)
           | (Inr cmdByte, r2) \<Rightarrow>
               if cmdByte \<notin> {0x01, 0x02, 0x03, 0x04, 0x05} then (Inl (ErrUnknownCommand cmdByte), r2)
               else
                 (case LoadContentFrom cmdByte r2 of
                    (Inl e, r3) \<Rightarrow> (Inl (Wrap ''failed to load command'' e), r3)
                  | (Inr cmd, r3) \<Rightarrow> (Inr cmd, r3))))"

subsection \<open>Package pixelpusher: strips and packets (strip.go, packet.go)\<close>

type_synonym StripFlags = byte

definition IsRGBOW :: "StripFlags \<Rightarrow> bool" where
  "IsRGBOW sf = (sf AND 1 \<noteq> 0)"

definition PixelBufferLayout :: "StripFlags \<Rightarrow> BufferLayout" where
  "PixelBufferLayout sf = (if IsRGBOW sf then BufferRGBOW else BufferRGB)"

record StripState =
  StripNumber :: byte
  Pixels :: Buffer

record Packet =
  ID :: "32 word"
  Command :: "Command option"
  StripStates :: "StripState list"

record PacketReader =
  PixelsPerStrip :: int
  StripFlags :: "StripFlags list"

text \<open>\<^verbatim>\<open>binary.Read(r, binary.BigEndian, &pkt.ID)\<close>: four bytes through \<^verbatim>\<open>io.ReadFull\<close>.\<close>

definition binary_Read_u32be :: "R \<Rightarrow> (error + 32 word) \<times> R" where
  "binary_Read_u32be r =
     (case io_ReadFull r 4 of
        (bs, Some e, r') \<Rightarrow> (Inl e, r')
      | (bs, None, r') \<Rightarrow> (Inr (Uint32BE bs), r'))"

lemma ReadFrom_progress:
  assumes "ReadFrom pb r n = (Inr pb', r')"
  shows "Buffer r' = Buffer r" and "pos r \<le> pos r'"
  using assms
  by (auto simp: ReadFrom_def Next_def Let_def split: if_splits sum.splits option.splits)

text \<open>The strip loop of \<^verbatim>\<open>ReadPacket\<close>; \<open>acc\<close> is \<^verbatim>\<open>pkt.StripStates\<close>.\<close>

function readStripStates ::
  "PacketReader \<Rightarrow> R \<Rightarrow> StripState list \<Rightarrow> error option \<times> StripState list \<times> R" where
  "readStripStates pr r acc =
     (case ReadByte r of
        (Inl e, r1) \<Rightarrow> if e = EOF then (None, acc, r1) else (Some e, acc, r1)
      | (Inr stripNumber, r1) \<Rightarrow>
          if int (unat stripNumber) \<ge> int (length (StripFlags pr)) then
            (Some (ErrStripIndexExceeds stripNumber (int (length (StripFlags pr)) - 1)), acc, r1)
          else
            (let flags = StripFlags pr ! unat stripNumber;
                 pixels = \<lparr>Layout = PixelBufferLayout flags, buf = []\<rparr>
             in case ReadFrom pixels r1 (PixelsPerStrip pr) of
                  (Inl e, r2) \<Rightarrow> (Some e, acc, r2)
                | (Inr pixels', r2) \<Rightarrow>
                    readStripStates pr r2
                      (acc @ [\<lparr>StripNumber = stripNumber, Pixels = pixels'\<rparr>])))"
  by pat_completeness auto
termination
proof (relation "measure (\<lambda>(pr, r, acc). length (Buffer r) - pos r)", goal_cases)
  case 1
  show ?case by simp
next
  case (2 pr r acc x y b xa xb xc ya ba)
  then have a: "ReadByte r = (Inr b, y)" by simp
  from 2 have c: "ReadFrom xb y (PixelsPerStrip pr) = (Inr ba, ya)" by simp
  from ReadByte_progress [OF a] ReadFrom_progress [OF c] show ?case by simp
qed

declare readStripStates.simps [simp del]

text \<open>
  \<^verbatim>\<open>ReadPacket(r, pkt)\<close> updates the caller's packet: the result is the error, the packet
  as the call leaves it, and the reader.
\<close>

definition ReadPacket :: "PacketReader \<Rightarrow> R \<Rightarrow> Packet \<Rightarrow> error option \<times> Packet \<times> R" where
  "ReadPacket pr r pkt =
     (case binary_Read_u32be r of
        (Inl e, r1) \<Rightarrow> (Some e, pkt, r1)
      | (Inr pid, r1) \<Rightarrow>
          (let pkt1 = pkt\<lparr>ID := pid\<rparr> in
           case Peek r1 (int (length CommandMagic)) of
             Inl p \<Rightarrow> (Some (Panic p), pkt1, r1)
           | Inr peeked \<Rightarrow>
               if peeked = CommandMagic then
                 (case Seek r1 (int (length CommandMagic)) SeekCurrent of
                    (Some e, r2) \<Rightarrow> (Some e, pkt1, r2)
                  | (None, r2) \<Rightarrow>
                      (case ReadCommand r2 False of
                         (Inl e, r3) \<Rightarrow> (Some e, pkt1\<lparr>Command := None\<rparr>, r3)
                       | (Inr cmd, r3) \<Rightarrow> (None, pkt1\<lparr>Command := Some cmd\<rparr>, r3)))
               else
                 (case readStripStates pr r1 [] of
                    (err, states, r2) \<Rightarrow> (err, pkt1\<lparr>StripStates := states\<rparr>, r2))))"

subsection \<open>Package pixel: CloneFromWithLen\<close>

text \<open>
  \<^verbatim>\<open>CloneFromWithLen(other, count)\<close> for \<open>count \<ge> 0\<close>: the receiver takes the layout of
  \<open>other\<close> and \<open>count\<close> pixels of its bytes, zero-filled at the end. Whether the receiver's
  old array is reused does not show in the result.
\<close>

definition CloneFromWithLen :: "Buffer \<Rightarrow> int \<Rightarrow> Buffer" where
  "CloneFromWithLen other count =
     (let bytesNeeded = nat (count * pixelSize other);
          copySize = min bytesNeeded (length (buf other))
      in \<lparr>Layout = Layout other,
          buf = take copySize (buf other) @ replicate (bytesNeeded - copySize) 0\<rparr>)"

subsection \<open>Package network: the datagram sender (support/network)\<close>

text \<open>
  \<^verbatim>\<open>DatagramSender\<close> is an interface. A sender is modelled by the size it reports, the
  outcomes of its next sends (\<open>None\<close> for success; an exhausted script means success), every
  datagram it was handed, and the datagrams it sent successfully, as the test suite's mock
  sender records them.
\<close>

record Sender =
  maxDatagramSize :: int
  script :: "error option list"
  handed :: "byte list list"
  datagrams :: "byte list list"

definition MaxDatagramSize :: "Sender \<Rightarrow> int" where
  "MaxDatagramSize ds = maxDatagramSize ds"

definition SendDatagram :: "Sender \<Rightarrow> byte list \<Rightarrow> error option \<times> Sender" where
  "SendDatagram ds b =
     (case script ds of
        [] \<Rightarrow> (None, ds\<lparr>handed := handed ds @ [b], datagrams := datagrams ds @ [b]\<rparr>)
      | None # rest \<Rightarrow>
          (None, ds\<lparr>script := rest, handed := handed ds @ [b], datagrams := datagrams ds @ [b]\<rparr>)
      | Some e # rest \<Rightarrow> (Some e, ds\<lparr>script := rest, handed := handed ds @ [b]\<rparr>))"

subsection \<open>Package pixelpusher: the packet stream (packet.go)\<close>

text \<open>
  A \<^verbatim>\<open>bytes.Buffer\<close> is the list of its unread bytes. \<open>StreamPixelsPerStrip\<close> is the
  field \<^verbatim>\<open>PacketStream.PixelsPerStrip\<close> (the name \<open>PixelsPerStrip\<close> is taken by the
  reader's field).
\<close>

record PacketStream =
  MaxStripsPerPacket :: byte
  StreamPixelsPerStrip :: "16 word"
  FixedSize :: int
  NextID :: "32 word"
  commandBuf :: "byte list"
  stripStateBuf :: "byte list"
  stripStateCount :: int

definition resetPacketBuffer :: "byte list \<Rightarrow> byte list" where
  "resetPacketBuffer b = (if length b < 4 then [0x00, 0x00, 0x00, 0x00] else take 4 b)"

text \<open>
  \<^verbatim>\<open>finalizeAndSendPacket(ds, buf)\<close>, in the order of the source: write the ID into the
  first four bytes, compare the length with the sender's maximum, pad to \<^verbatim>\<open>FixedSize\<close>,
  send, and on success reset the buffer and increment \<^verbatim>\<open>NextID\<close>. The buffer is one of
  the stream's two buffers; the function returns it for the caller to store back. Both
  callers reserve the four bytes first; on a shorter buffer \<^verbatim>\<open>buf.Bytes()[:4]\<close> is taken
  to panic.
\<close>

definition finalizeAndSendPacket ::
  "PacketStream \<Rightarrow> Sender \<Rightarrow> byte list \<Rightarrow> error option \<times> PacketStream \<times> Sender \<times> byte list" where
  "finalizeAndSendPacket ps ds b =
     (if length b < 4 then (Some (Panic SliceBoundsOutOfRange), ps, ds, b)
      else
        (let b1 = PutUint32BE (NextID ps) @ drop 4 b;
             mds = MaxDatagramSize ds
         in if int (length b1) > mds then (Some (ErrPacketSize (int (length b1)) mds), ps, ds, b1)
            else
              (let fs = FixedSize ps;
                   b2 = (if fs > 0 \<and> int (length b1) < fs
                         then b1 @ replicate (nat (fs - int (length b1))) 0x00 else b1)
               in case SendDatagram ds b2 of
                    (Some e, ds') \<Rightarrow> (Some e, ps, ds', b2)
                  | (None, ds') \<Rightarrow>
                      (None, ps\<lparr>NextID := NextID ps + 1\<rparr>, ds', resetPacketBuffer b2))))"

definition SendCommand ::
  "PacketStream \<Rightarrow> Sender \<Rightarrow> Command \<Rightarrow> error option \<times> PacketStream \<times> Sender" where
  "SendCommand ps ds cmd =
     (let b = resetPacketBuffer (commandBuf ps) @ WriteCommand cmd True in
      case finalizeAndSendPacket (ps\<lparr>commandBuf := b\<rparr>) ds b of
        (err, ps', ds', b') \<Rightarrow> (err, ps'\<lparr>commandBuf := b'\<rparr>, ds'))"

definition Flush :: "PacketStream \<Rightarrow> Sender \<Rightarrow> error option \<times> PacketStream \<times> Sender" where
  "Flush ps ds =
     (if stripStateCount ps = 0 then (None, ps, ds)
      else
        (case finalizeAndSendPacket ps ds (stripStateBuf ps) of
           (Some e, ps', ds', b') \<Rightarrow> (Some e, ps'\<lparr>stripStateBuf := b'\<rparr>, ds')
         | (None, ps', ds', b') \<Rightarrow> (None, ps'\<lparr>stripStateBuf := b', stripStateCount := 0\<rparr>, ds')))"

definition calculateMaxPacketSize :: "PacketStream \<Rightarrow> Sender \<Rightarrow> int" where
  "calculateMaxPacketSize ps ds =
     (let mps = FixedSize ps; v = MaxDatagramSize ds in
      if mps \<le> 0 \<or> mps > v then v else mps)"

text \<open>
  \<^verbatim>\<open>SendOrEnqueueStripState\<close>. \<^verbatim>\<open>data\<close> is taken from the caller's strip state before the
  clone that conforms the pixel count, and it is \<^verbatim>\<open>data\<close> that is measured and written;
  of the clone only the strip number is used. The function is cut in three:
  \<open>conformStripState\<close> is the clone, \<open>enqueueWithinLimit\<close> the maximum-packet-size block
  and what follows it, \<open>appendStripState\<close> the tail from the write of the strip number on.
\<close>

definition appendStripState ::
  "PacketStream \<Rightarrow> Sender \<Rightarrow> StripState \<Rightarrow> byte list \<Rightarrow> error option \<times> PacketStream \<times> Sender" where
  "appendStripState ps ds ss data =
     (let ps1 = ps\<lparr>stripStateBuf := stripStateBuf ps @ [StripNumber ss] @ data,
                   stripStateCount := stripStateCount ps + 1\<rparr>
      in if stripStateCount ps1 \<ge> int (unat (MaxStripsPerPacket ps1)) then Flush ps1 ds
         else (None, ps1, ds))"

definition conformStripState :: "PacketStream \<Rightarrow> StripState \<Rightarrow> StripState" where
  "conformStripState ps ss =
     (if StreamPixelsPerStrip ps > 0 \<and> Len (Pixels ss) \<noteq> int (unat (StreamPixelsPerStrip ps))
      then \<lparr>StripNumber = StripNumber ss,
            Pixels = CloneFromWithLen (Pixels ss) (int (unat (StreamPixelsPerStrip ps)))\<rparr>
      else ss)"

definition enqueueWithinLimit ::
  "PacketStream \<Rightarrow> Sender \<Rightarrow> StripState \<Rightarrow> byte list \<Rightarrow> error option \<times> PacketStream \<times> Sender" where
  "enqueueWithinLimit ps ds ss data =
     (let mps = calculateMaxPacketSize ps ds;
          stripDataSize = 1 + int (length data)
      in if mps > 0 \<and> int (length (stripStateBuf ps)) + stripDataSize > mps then
           (if stripStateCount ps = 0 then (Some ErrStripDataTooLarge, ps, ds)
            else
              (case Flush ps ds of
                 (Some e, ps2, ds2) \<Rightarrow> (Some e, ps2, ds2)
               | (None, ps2, ds2) \<Rightarrow>
                   if int (length (stripStateBuf ps2)) + stripDataSize > mps
                   then (Some ErrStripDataTooLarge, ps2, ds2)
                   else appendStripState ps2 ds2 ss data))
         else appendStripState ps ds ss data)"

definition SendOrEnqueueStripState ::
  "PacketStream \<Rightarrow> Sender \<Rightarrow> StripState \<Rightarrow> error option \<times> PacketStream \<times> Sender" where
  "SendOrEnqueueStripState ps ds ss0 =
     (let data = buf (Pixels ss0) in
      if length data = 0 then (None, ps, ds)
      else
        (let ss = conformStripState ps ss0;
             ps1 = (if stripStateCount ps = 0
                    then ps\<lparr>stripStateBuf := resetPacketBuffer (stripStateBuf ps)\<rparr> else ps)
         in enqueueWithinLimit ps1 ds ss data))"

text \<open>The loop of \<^verbatim>\<open>Send\<close> over \<^verbatim>\<open>pkt.StripStates\<close>, which stops at the first error.\<close>

fun sendStripStates ::
  "PacketStream \<Rightarrow> Sender \<Rightarrow> StripState list \<Rightarrow> error option \<times> PacketStream \<times> Sender" where
  "sendStripStates ps ds [] = (None, ps, ds)"
| "sendStripStates ps ds (ss # rest) =
     (case SendOrEnqueueStripState ps ds ss of
        (Some e, ps', ds') \<Rightarrow> (Some e, ps', ds')
      | (None, ps', ds') \<Rightarrow> sendStripStates ps' ds' rest)"

definition Send :: "PacketStream \<Rightarrow> Sender \<Rightarrow> Packet \<Rightarrow> error option \<times> PacketStream \<times> Sender" where
  "Send ps ds pkt =
     (case Command pkt of
        Some cmd \<Rightarrow> SendCommand ps ds cmd
      | None \<Rightarrow> sendStripStates ps ds (StripStates pkt))"

text \<open>A caller's sequence of calls on one stream and one sender; the caller goes on after
  an error.\<close>

datatype stream_op = OpSend Packet | OpSendCommand Command | OpEnqueue StripState | OpFlush

fun apply_op :: "PacketStream \<Rightarrow> Sender \<Rightarrow> stream_op \<Rightarrow> error option \<times> PacketStream \<times> Sender" where
  "apply_op ps ds (OpSend pkt) = Send ps ds pkt"
| "apply_op ps ds (OpSendCommand cmd) = SendCommand ps ds cmd"
| "apply_op ps ds (OpEnqueue ss) = SendOrEnqueueStripState ps ds ss"
| "apply_op ps ds OpFlush = Flush ps ds"

fun run_ops :: "PacketStream \<Rightarrow> Sender \<Rightarrow> stream_op list \<Rightarrow> PacketStream \<times> Sender" where
  "run_ops ps ds [] = (ps, ds)"
| "run_ops ps ds (x # xs) = (case apply_op ps ds x of (err, ps', ds') \<Rightarrow> run_ops ps' ds' xs)"

subsection \<open>Package pixelpusher: the discovery block (protocol/pixelpusher/discovery.go)\<close>

text \<open>
  \<^verbatim>\<open>Device\<close> with its embedded structs \<^verbatim>\<open>DeviceHeader\<close>, \<^verbatim>\<open>DeviceHeaderExt101\<close>,
  \<^verbatim>\<open>DeviceHeaderExt109\<close> and \<^verbatim>\<open>DeviceHeaderExt117\<close> laid out flat. The signed fields keep
  their bits. \<open>DevMaxStripsPerPacket\<close>, \<open>DevPixelsPerStrip\<close> and \<open>DevStripFlags\<close> are the
  fields \<^verbatim>\<open>MaxStripsPerPacket\<close>, \<^verbatim>\<open>PixelsPerStrip\<close> and \<^verbatim>\<open>StripFlags\<close>, whose names are
  taken. The two pad fields are never set by the packer and are left out.
\<close>

record Device =
  StripsAttached :: byte
  DevMaxStripsPerPacket :: byte
  DevPixelsPerStrip :: "16 word"
  UpdatePeriod :: "32 word"
  PowerTotal :: "32 word"
  DeltaSequence :: "32 word"
  ControllerOrdinal :: "32 word"
  GroupOrdinal :: "32 word"
  ArtNetUniverse :: "16 word"
  ArtNetChannel :: "16 word"
  MyPort :: "16 word"
  DevStripFlags :: "StripFlags list"
  PusherFlags :: "32 word"
  Segments :: "32 word"
  PowerDomain :: "32 word"
  Extra :: "byte list"

definition DefaultPort :: "16 word" where
  "DefaultPort = 9798"

text \<open>The closure \<^verbatim>\<open>finish\<close> of \<^verbatim>\<open>ReadDevice\<close>.\<close>

definition finish :: "Device \<Rightarrow> R \<Rightarrow> (error + Device) \<times> R" where
  "finish d r = (case ReadAll r of (v, r') \<Rightarrow> (Inr (d\<lparr>Extra := v\<rparr>), r'))"

text \<open>
  \<^verbatim>\<open>ReadDevice(r, swVersion)\<close>, cut at the three extensions: \<open>readExt101\<close>,
  \<open>readExt109\<close> and \<open>readExt117\<close> are the parts of the function from the comments
  \<^verbatim>\<open>(Software Version >= 101)\<close>, \<^verbatim>\<open>>= 109\<close> and \<^verbatim>\<open>>= 117\<close> on. Each \<^verbatim>\<open>switch\<close> has the
  cases \<^verbatim>\<open>nil\<close>, \<^verbatim>\<open>io.EOF\<close> and \<^verbatim>\<open>default\<close>.

  The parameter \<^verbatim>\<open>r\<close> is an \<^verbatim>\<open>io.Reader\<close> over the bytes of the block; here it is an \<open>R\<close>.
  \<^verbatim>\<open>ParseDiscoveryHeaders\<close> passes a \<^verbatim>\<open>bytes.Reader\<close>, which reports \<^verbatim>\<open>io.EOF\<close> on the read
  after the last byte instead of together with it; \<^verbatim>\<open>io.ReadFull\<close>, \<^verbatim>\<open>dataio.ReadFull\<close> and
  \<^verbatim>\<open>ioutil.ReadAll\<close> return the same bytes and the same error for both.
\<close>

definition readExt117 :: "Device \<Rightarrow> R \<Rightarrow> 16 word \<Rightarrow> (error + Device) \<times> R" where
  "readExt117 d r swVersion =
     (if swVersion < 117 then finish d r
      else
        (case struc_Unpack r [2, 4, 4, 4] of
           (Inr fs, r') \<Rightarrow>
             finish (d\<lparr>PusherFlags := Uint32LE (fs ! 1), Segments := Uint32LE (fs ! 2),
                        PowerDomain := Uint32LE (fs ! 3)\<rparr>) r'
         | (Inl e, r') \<Rightarrow>
             if e = EOF then finish d r'
             else (Inl (Wrap ''reading D117 extension header'' e), r')))"

definition readExt109 :: "Device \<Rightarrow> R \<Rightarrow> 16 word \<Rightarrow> (error + Device) \<times> R" where
  "readExt109 d r swVersion =
     (if swVersion < 109 then finish d r
      else
        (let numStripFlags = (if (8 :: byte) < StripsAttached d then StripsAttached d else 8) in
         case dataio_ReadFull r (unat numStripFlags) of
           (stripFlags, None, r') \<Rightarrow>
             readExt117 (d\<lparr>DevStripFlags := take (length (DevStripFlags d)) stripFlags\<rparr>) r' swVersion
         | (stripFlags, Some e, r') \<Rightarrow>
             if e = EOF then finish d r'
             else (Inl (Wrap ''reading D109 extension header'' e), r')))"

definition readExt101 :: "Device \<Rightarrow> R \<Rightarrow> 16 word \<Rightarrow> (error + Device) \<times> R" where
  "readExt101 d r swVersion =
     (if swVersion < 101 then finish d r
      else
        (case struc_Unpack r [2, 2] of
           (Inr fs, r') \<Rightarrow> readExt109 (d\<lparr>MyPort := Uint16LE (fs ! 0)\<rparr>) r' swVersion
         | (Inl e, r') \<Rightarrow>
             if e = EOF then finish d r'
             else (Inl (Wrap ''reading D101 extension header'' e), r')))"

definition ReadDevice :: "R \<Rightarrow> 16 word \<Rightarrow> (error + Device) \<times> R" where
  "ReadDevice r swVersion =
     (case struc_Unpack r [1, 1, 2, 4, 4, 4, 4, 4, 2, 2] of
        (Inl e, r') \<Rightarrow> (Inl e, r')
      | (Inr fs, r') \<Rightarrow>
          readExt101
            \<lparr>StripsAttached = fs ! 0 ! 0, DevMaxStripsPerPacket = fs ! 1 ! 0,
             DevPixelsPerStrip = Uint16LE (fs ! 2), UpdatePeriod = Uint32LE (fs ! 3),
             PowerTotal = Uint32LE (fs ! 4), DeltaSequence = Uint32LE (fs ! 5),
             ControllerOrdinal = Uint32LE (fs ! 6), GroupOrdinal = Uint32LE (fs ! 7),
             ArtNetUniverse = Uint16LE (fs ! 8), ArtNetChannel = Uint16LE (fs ! 9),
             MyPort = DefaultPort, DevStripFlags = replicate (unat (fs ! 0 ! 0)) 0,
             PusherFlags = 0, Segments = 0, PowerDomain = 0, Extra = []\<rparr>
            r' swVersion)"

text \<open>\<^verbatim>\<open>Device.Write(w, swVersion)\<close>: the bytes written to a writer that does not fail.\<close>

definition writeDeviceHeader :: "Device \<Rightarrow> byte list" where
  "writeDeviceHeader d =
     [StripsAttached d, DevMaxStripsPerPacket d] @ PutUint16LE (DevPixelsPerStrip d) @
     PutUint32LE (UpdatePeriod d) @ PutUint32LE (PowerTotal d) @ PutUint32LE (DeltaSequence d) @
     PutUint32LE (ControllerOrdinal d) @ PutUint32LE (GroupOrdinal d) @
     PutUint16LE (ArtNetUniverse d) @ PutUint16LE (ArtNetChannel d)"

definition writeExt101 :: "Device \<Rightarrow> byte list" where
  "writeExt101 d = PutUint16LE (MyPort d) @ [0x00, 0x00]"

definition writeExt109 :: "Device \<Rightarrow> byte list" where
  "writeExt109 d = DevStripFlags d @ replicate (8 - length (DevStripFlags d)) 0x00"

definition writeExt117 :: "Device \<Rightarrow> byte list" where
  "writeExt117 d =
     [0x00, 0x00] @ PutUint32LE (PusherFlags d) @ PutUint32LE (Segments d) @
     PutUint32LE (PowerDomain d)"

definition Write :: "Device \<Rightarrow> 16 word \<Rightarrow> byte list" where
  "Write d swVersion =
     writeDeviceHeader d @
     (if swVersion < 101 then []
      else writeExt101 d @
        (if swVersion < 109 then []
         else writeExt109 d @
           (if swVersion < 117 then [] else writeExt117 d)))"

text \<open>The value a parse at revision \<open>sw\<close> can recover from a device: the fields of the
  extensions that \<open>sw\<close> does not have are at their defaults.\<close>

definition known_at :: "16 word \<Rightarrow> Device \<Rightarrow> Device" where
  "known_at sw d =
     d\<lparr>MyPort := (if sw < 101 then DefaultPort else MyPort d),
       DevStripFlags := (if sw < 109 then replicate (unat (StripsAttached d)) 0 else DevStripFlags d),
       PusherFlags := (if sw < 117 then 0 else PusherFlags d),
       Segments := (if sw < 117 then 0 else Segments d),
       PowerDomain := (if sw < 117 then 0 else PowerDomain d)\<rparr>"

subsection \<open>Package device: ordinals, devices, the registry (src/device/ordinal.go, src/device/device.go, src/device/local.go)\<close>

record Ordinal =
  Group :: int
  Controller :: int

definition InvalidOrdinal :: Ordinal where
  "InvalidOrdinal = \<lparr>Group = - 1, Controller = - 1\<rparr>"

definition IsValid :: "Ordinal \<Rightarrow> bool" where
  "IsValid o' \<longleftrightarrow> Group o' \<ge> 0 \<and> Controller o' \<ge> 0"

text \<open>
  A device \<^verbatim>\<open>D\<close> is an interface value, compared by identity: a reference \<open>dref\<close>. What
  its methods \<^verbatim>\<open>ID()\<close>, \<^verbatim>\<open>Ordinal()\<close> and \<^verbatim>\<open>DoneC()\<close> answer at the moment of a call is the
  device's state, which the registry does not own: a \<open>world\<close> gives the state of every
  device. A device becomes done, or changes its ordinal, by a change of the world.
\<close>

type_synonym dref = nat

record devState =
  dID :: string
  dOrdinal :: Ordinal
  dDone :: bool

type_synonym world = "dref \<Rightarrow> devState"

definition IsDone :: "world \<Rightarrow> dref \<Rightarrow> bool" where
  "IsDone W d = dDone (W d)"

text \<open>
  The registry. A \<^verbatim>\<open>*registryEntry\<close> is a reference \<open>eref\<close> into the store \<open>entry\<close>;
  \<open>nextEntry\<close> is the next unused reference. \<^verbatim>\<open>devices\<close> is iterated by the code and is
  an association list with one pair per key; a Go set \<^verbatim>\<open>map[*registryEntry]struct{}\<close> is a
  list without repetitions, and a missing key of \<^verbatim>\<open>groupMap\<close> or \<^verbatim>\<open>ordinalMap\<close> is the
  empty list (the code reads both alike and deletes a key whose set becomes empty).
\<close>

type_synonym eref = nat

record registryEntry =
  device :: dref
  deviceID :: string
  registeredGroup :: int
  registeredOrdinal :: Ordinal

record Registry =
  entry :: "eref \<Rightarrow> registryEntry"
  nextEntry :: eref
  devices :: "(string \<times> eref) list"
  groupMap :: "int \<Rightarrow> eref list"
  ordinalMap :: "Ordinal \<Rightarrow> eref list"

definition emptyRegistry :: Registry where
  "emptyRegistry =
     \<lparr>entry = (\<lambda>_. \<lparr>device = 0, deviceID = [], registeredGroup = 0,
                       registeredOrdinal = \<lparr>Group = 0, Controller = 0\<rparr>\<rparr>),
      nextEntry = 0, devices = [], groupMap = (\<lambda>_. []), ordinalMap = (\<lambda>_. [])\<rparr>"

definition set_add :: "eref \<Rightarrow> eref list \<Rightarrow> eref list" where
  "set_add e es = (if e \<in> set es then es else es @ [e])"

definition Get :: "Registry \<Rightarrow> world \<Rightarrow> string \<Rightarrow> dref option" where
  "Get reg W id' =
     (case map_of (devices reg) id' of
        None \<Rightarrow> None
      | Some e \<Rightarrow> if IsDone W (device (entry reg e)) then None else Some (device (entry reg e)))"

definition GetUniqueOrdinal :: "Registry \<Rightarrow> world \<Rightarrow> Ordinal \<Rightarrow> dref option" where
  "GetUniqueOrdinal reg W o' =
     (let emap = ordinalMap reg o' in
      if length emap = 1 then
        (if IsDone W (device (entry reg (hd emap))) then None
         else Some (device (entry reg (hd emap))))
      else None)"

definition checkDeviceRegistration :: "Registry \<Rightarrow> world \<Rightarrow> string \<Rightarrow> bool" where
  "checkDeviceRegistration reg W id' =
     (case map_of (devices reg) id' of
        None \<Rightarrow> False
      | Some e \<Rightarrow>
          (let ord = dOrdinal (W (device (entry reg e))) in
           if e \<notin> set (groupMap reg (Group ord)) then False
           else if e \<notin> set (ordinalMap reg ord) then False
           else if IsDone W (device (entry reg e)) then False
           else True))"

definition removeFromGroupMapLocked :: "Registry \<Rightarrow> eref \<Rightarrow> Registry" where
  "removeFromGroupMapLocked reg e =
     (let g = registeredGroup (entry reg e) in
      reg\<lparr>groupMap := (groupMap reg)(g := removeAll e (groupMap reg g)),
          entry := (entry reg)(e := (entry reg e)\<lparr>registeredGroup := 0\<rparr>)\<rparr>)"

definition removeFromOrdinalMapLocked :: "Registry \<Rightarrow> eref \<Rightarrow> Registry" where
  "removeFromOrdinalMapLocked reg e =
     (let o' = registeredOrdinal (entry reg e) in
      reg\<lparr>ordinalMap := (ordinalMap reg)(o' := removeAll e (ordinalMap reg o')),
          entry := (entry reg)(e := (entry reg e)\<lparr>registeredOrdinal := \<lparr>Group = 0, Controller = 0\<rparr>\<rparr>)\<rparr>)"

definition unregisterEntryLocked :: "Registry \<Rightarrow> eref \<Rightarrow> Registry" where
  "unregisterEntryLocked reg e =
     (if map_of (devices reg) (deviceID (entry reg e)) \<noteq> Some e then reg
      else
        (let reg1 = removeFromGroupMapLocked reg e;
             reg2 = removeFromOrdinalMapLocked reg1 e
         in reg2\<lparr>devices := filter (\<lambda>(k, _). k \<noteq> deviceID (entry reg2 e)) (devices reg2)\<rparr>))"

text \<open>\<^verbatim>\<open>unregisterEntry\<close> is \<^verbatim>\<open>unregisterEntryLocked\<close> under the lock; the entry's lifecycle
  goroutine calls it some time after the device is done.\<close>

definition unregisterEntry :: "Registry \<Rightarrow> eref \<Rightarrow> Registry" where
  "unregisterEntry reg e = unregisterEntryLocked reg e"

definition unregisterDoneEntriesLocked :: "Registry \<Rightarrow> world \<Rightarrow> Registry" where
  "unregisterDoneEntriesLocked reg W =
     fold (\<lambda>(k, e) reg'. if IsDone W (device (entry reg' e)) then unregisterEntryLocked reg' e
                          else reg')
       (devices reg) reg"

definition updateOrdinalLocked :: "Registry \<Rightarrow> world \<Rightarrow> eref \<Rightarrow> bool \<Rightarrow> Registry" where
  "updateOrdinalLocked reg W e isNew =
     (let ordinal = dOrdinal (W (device (entry reg e)));
          reg1 =
            (if isNew \<or> registeredGroup (entry reg e) \<noteq> Group ordinal then
               (let r0 = (if \<not> isNew then removeFromGroupMapLocked reg e else reg) in
                r0\<lparr>groupMap := (groupMap r0)(Group ordinal := set_add e (groupMap r0 (Group ordinal))),
                    entry := (entry r0)(e := (entry r0 e)\<lparr>registeredGroup := Group ordinal\<rparr>)\<rparr>)
             else reg);
          reg2 =
            (if isNew \<or> registeredOrdinal (entry reg1 e) \<noteq> ordinal then
               (let r0 = (if \<not> isNew then removeFromOrdinalMapLocked reg1 e else reg1) in
                r0\<lparr>ordinalMap := (ordinalMap r0)(ordinal := set_add e (ordinalMap r0 ordinal)),
                    entry := (entry r0)(e := (entry r0 e)\<lparr>registeredOrdinal := ordinal\<rparr>)\<rparr>)
             else reg1)
      in reg2)"

text \<open>\<^verbatim>\<open>Add(d)\<close>. The goroutine it starts for a new entry is the later call of
  \<open>unregisterEntry\<close>.\<close>

definition Add :: "Registry \<Rightarrow> world \<Rightarrow> dref \<Rightarrow> Registry" where
  "Add reg W d =
     (let id' = dID (W d) in
      if checkDeviceRegistration reg W id' then reg
      else
        (let reg1 = unregisterDoneEntriesLocked reg W in
         case map_of (devices reg1) id' of
           None \<Rightarrow>
             (let e = nextEntry reg1;
                  reg2 = reg1\<lparr>entry := (entry reg1)(e := \<lparr>device = d, deviceID = id',
                                  registeredGroup = 0,
                                  registeredOrdinal = \<lparr>Group = 0, Controller = 0\<rparr>\<rparr>),
                              nextEntry := e + 1,
                              devices := devices reg1 @ [(id', e)]\<rparr>
              in updateOrdinalLocked reg2 W e True)
         | Some e \<Rightarrow> updateOrdinalLocked reg1 W e False))"

subsection \<open>Package device: the router (src/device/router.go)\<close>

text \<open>
  \<^verbatim>\<open>Route\<close>. \<open>routeTarget\<close> is its first part, the choice of the device. What follows
  the choice (the connection to the device, the listeners, the send) is the parameter
  \<open>deliver\<close>.
\<close>

definition routeTarget :: "Registry \<Rightarrow> world \<Rightarrow> Ordinal \<Rightarrow> string \<Rightarrow> dref option" where
  "routeTarget reg W ordinal id' =
     (let d = (if IsValid ordinal then GetUniqueOrdinal reg W ordinal else None);
          d = (if d = None then Get reg W id' else d)
      in d)"

definition Route ::
  "Registry \<Rightarrow> world \<Rightarrow> (dref \<Rightarrow> Packet \<Rightarrow> error option) \<Rightarrow> Ordinal \<Rightarrow> string \<Rightarrow> Packet \<Rightarrow> error option" where
  "Route reg W deliver ordinal id' pkt =
     (case routeTarget reg W ordinal id' of
        None \<Rightarrow> Some ErrNoRoute
      | Some d \<Rightarrow> deliver d pkt)"

subsection \<open>Vocabulary for the statements\<close>

text \<open>\<open>advance r k\<close> is the reader \<open>r\<close> moved \<open>k\<close> bytes on.\<close>

definition advance :: "R \<Rightarrow> nat \<Rightarrow> R" where
  "advance r k = r\<lparr>pos := pos r + k\<rparr>"

text \<open>The wire form of a list of strip states, and what it means for a strip state to fit a
  reader's configuration.\<close>

definition wire_strip :: "StripState \<Rightarrow> byte list" where
  "wire_strip s = StripNumber s # buf (Pixels s)"

definition wire_strips :: "StripState list \<Rightarrow> byte list" where
  "wire_strips ss = concat (map wire_strip ss)"

definition stripLayout :: "PacketReader \<Rightarrow> byte \<Rightarrow> BufferLayout" where
  "stripLayout pr num = PixelBufferLayout (StripFlags pr ! unat num)"

definition stripBytes :: "PacketReader \<Rightarrow> byte \<Rightarrow> int" where
  "stripBytes pr num = PixelsPerStrip pr * (case stripLayout pr num of BufferRGB \<Rightarrow> 3 | BufferRGBOW \<Rightarrow> 9)"

definition fits_reader :: "PacketReader \<Rightarrow> StripState \<Rightarrow> bool" where
  "fits_reader pr s \<longleftrightarrow>
     unat (StripNumber s) < length (StripFlags pr) \<and>
     Layout (Pixels s) = stripLayout pr (StripNumber s) \<and>
     int (length (buf (Pixels s))) = stripBytes pr (StripNumber s)"

text \<open>The commands whose strings hold no NUL byte.\<close>

fun noNUL :: "Command \<Rightarrow> bool" where
  "noNUL (WiFiConfigureCommand ssid key security) = (0 \<notin> set ssid \<and> 0 \<notin> set key)"
| "noNUL ResetCommand = True"
| "noNUL (GlobalBrightnessSetCommand parameter) = True"
| "noNUL (StripBrightnessSetCommand stripNumber parameter) = True"
| "noNUL (LEDConfigureCommand a b c d e f g h) = True"

text \<open>\<open>counted ps ds ps' ds'\<close>: between the two states the sender has sent some more
  datagrams, \<^verbatim>\<open>NextID\<close> has grown by their number, and they carry consecutive IDs.\<close>

definition counted :: "PacketStream \<Rightarrow> Sender \<Rightarrow> PacketStream \<Rightarrow> Sender \<Rightarrow> bool" where
  "counted ps ds ps' ds' \<longleftrightarrow>
     (\<exists>new. datagrams ds' = datagrams ds @ new \<and>
            NextID ps' = NextID ps + of_nat (length new) \<and>
            map (take 4) new = map (\<lambda>k. PutUint32BE (NextID ps + of_nat k)) [0..<length new])"

text \<open>Two devices with the same ordinal, as in the registry tests: a world with the live
  devices \<open>dev0\<close> and \<open>dev1\<close>, both at ordinal (5, 10), and the registry after both are added.
  \<open>markDone\<close> is the change of the world by which a device becomes done.\<close>

definition dev0 :: dref where "dev0 = 7"
definition dev1 :: dref where "dev1 = 8"
definition ord510 :: Ordinal where "ord510 = \<lparr>Group = 5, Controller = 10\<rparr>"

definition testWorld :: world where
  "testWorld =
     (\<lambda>_. \<lparr>dID = [], dOrdinal = InvalidOrdinal, dDone = True\<rparr>)
       (dev0 := \<lparr>dID = ''d0'', dOrdinal = ord510, dDone = False\<rparr>,
        dev1 := \<lparr>dID = ''d1'', dOrdinal = ord510, dDone = False\<rparr>)"

definition markDone :: "world \<Rightarrow> dref \<Rightarrow> world" where
  "markDone W d = W(d := (W d)\<lparr>dDone := True\<rparr>)"

definition testRegistry :: Registry where
  "testRegistry = Add (Add emptyRegistry testWorld dev0) testWorld dev1"

section \<open>Part II: properties\<close>

subsection \<open>Byte order round trips\<close>

lemma bit_byte_at:
  fixes v :: "'a::len word"
  shows "bit (push_bit k (ucast (ucast (drop_bit k v) :: byte)) :: 'a word) n \<longleftrightarrow>
           k \<le> n \<and> n < k + 8 \<and> n < LENGTH('a) \<and> bit v n"
  by (auto simp: bit_simps)

lemma bit_byte_0:
  fixes v :: "'a::len word"
  shows "bit (ucast (ucast v :: byte) :: 'a word) n \<longleftrightarrow> n < 8 \<and> n < LENGTH('a) \<and> bit v n"
  by (auto simp: bit_simps)

lemma Uint16LE_Put: "Uint16LE (PutUint16LE v) = v"
proof (rule bit_word_eqI)
  fix n assume "n < LENGTH(16)"
  then have "n < 8 \<or> (8 \<le> n \<and> n < 8 + 8)" by auto
  then show "bit (Uint16LE (PutUint16LE v)) n = bit v n"
    using \<open>n < LENGTH(16)\<close>
    by (simp add: Uint16LE_def PutUint16LE_def bit_or_iff bit_byte_at bit_byte_0) arith
qed

lemma Uint32LE_Put: "Uint32LE (PutUint32LE v) = v"
proof (rule bit_word_eqI)
  fix n assume n: "n < LENGTH(32)"
  show "bit (Uint32LE (PutUint32LE v)) n = bit v n"
    using n
    by (simp add: Uint32LE_def PutUint32LE_def bit_or_iff bit_byte_at bit_byte_0) arith
qed

lemma Uint32BE_Put: "Uint32BE (PutUint32BE v) = v"
proof (rule bit_word_eqI)
  fix n assume n: "n < LENGTH(32)"
  show "bit (Uint32BE (PutUint32BE v)) n = bit v n"
    using n
    by (simp add: Uint32BE_def PutUint32BE_def bit_or_iff bit_byte_at bit_byte_0) arith
qed

lemma Uint64LE_Put: "Uint64LE (PutUint64LE v) = v"
proof (rule bit_word_eqI)
  fix n assume n: "n < LENGTH(64)"
  show "bit (Uint64LE (PutUint64LE v)) n = bit v n"
    using n
    by (simp add: Uint64LE_def PutUint64LE_def bit_or_iff bit_byte_at bit_byte_0) arith
qed


subsection \<open>The luminance transform\<close>

lemma AntiLog_loop_pixelIndex_0:
  "i \<le> length b \<Longrightarrow> AntiLog_loop lay i 0 b = take i b @ map lookupExp (drop i b)"
proof (induction "length b - i" arbitrary: i b)
  case 0
  then show ?case by (subst AntiLog_loop.simps) simp
next
  case (Suc n)
  then have lt: "i < length b" by simp
  have step: "antiLogStep lay i 0 = (i, 0)"
    by (cases lay) (simp_all add: antiLogStep_def)
  let ?b = "b[i := lookupExp (b ! i)]"
  have "AntiLog_loop lay i 0 b = AntiLog_loop lay (Suc i) 0 ?b"
    using lt step by (subst AntiLog_loop.simps) simp
  also have "\<dots> = take (Suc i) ?b @ map lookupExp (drop (Suc i) ?b)"
    using Suc.hyps(1) [of ?b "Suc i"] Suc.hyps(2) lt by simp
  also have "\<dots> = take i b @ map lookupExp (drop i b)"
    using lt by (simp add: take_Suc_conv_app_nth Cons_nth_drop_Suc [symmetric])
  finally show ?case .
qed

text \<open>
  C5. \<^verbatim>\<open>AntiLog\<close>, with its index-skipping branches, equals the table applied to every
  byte of the buffer, for both layouts: the counter \<^verbatim>\<open>pixelIndex\<close> never leaves 0, so no
  byte (in particular no duplicated O or W byte of an RGBOW pixel) is skipped.
\<close>

theorem AntiLog_is_bytewise_table:
  "AntiLog pb = antilog_spec pb \<and> buf (AntiLog pb) = map (\<lambda>b. pixelLinearExp ! unat b) (buf pb)"
  using AntiLog_loop_pixelIndex_0 [of 0 "buf pb" "Layout pb"]
  by (simp add: AntiLog_def antilog_spec_def lookupExp_def [abs_def])

subsection \<open>Pixel access\<close>

lemma wrap64_id: "- (2 ^ 63) \<le> x \<Longrightarrow> x < 2 ^ 63 \<Longrightarrow> wrap64 x = x"
  by (simp add: wrap64_def)

lemma offset_in_range:
  assumes "0 \<le> i" "i < int n div k" "0 < k" "int n < 2 ^ 63"
  shows "wrap64 (i * k) = i * k" "i * k + k \<le> int n" "0 \<le> i * k"
proof -
  have "(i + 1) \<le> int n div k" using assms by simp
  then have "(i + 1) * k \<le> (int n div k) * k" using assms(3) by (simp add: mult_right_mono)
  also have "\<dots> \<le> int n"
    using pos_mod_sign [of k "int n"] div_mult_mod_eq [of "int n" k] assms(3) by linarith
  finally show b: "i * k + k \<le> int n" by (simp add: algebra_simps)
  show c: "0 \<le> i * k" using assms by simp
  show "wrap64 (i * k) = i * k" using b c assms by (intro wrap64_id) linarith+
qed

lemma SetPixel_Pixel_RGB:
  assumes "0 \<le> i" "i < Len pb" "int (length (buf pb)) < 2 ^ 63" "Layout pb = BufferRGB"
  shows "\<exists>pb'. SetPixel pb i p = Inr pb' \<and> Layout pb' = BufferRGB \<and>
     Pixel pb' i = Inr \<lparr>Red = Red p, Green = Green p, Blue = Blue p, Orange = 0, White = 0\<rparr>"
proof -
  have ps: "pixelSize pb = 3" using assms(4) by (simp add: pixelSize_def)
  note r = offset_in_range [OF assms(1) assms(2) [unfolded Len_def ps] _ assms(3)]
  show ?thesis using r assms(4)
    by (simp add: SetPixel_def Pixel_def ps pixelSize_def Let_def nat_add_distrib)
qed

lemma SetPixel_Pixel_RGBOW:
  assumes "0 \<le> i" "i < Len pb" "int (length (buf pb)) < 2 ^ 63" "Layout pb = BufferRGBOW"
  shows "\<exists>pb'. SetPixel pb i p = Inr pb' \<and> Layout pb' = BufferRGBOW \<and>
     Pixel pb' i = Inr p \<and>
     take 9 (drop (nat (i * 9)) (buf pb')) =
       [Red p, Green p, Blue p, Orange p, Orange p, Orange p, White p, White p, White p]"
proof -
  have ps: "pixelSize pb = 9" using assms(4) by (simp add: pixelSize_def)
  note r = offset_in_range [OF assms(1) assms(2) [unfolded Len_def ps] _ assms(3)]
  have "take 9 (drop (nat (i * 9)) xs) = map (\<lambda>k. xs ! (nat (i * 9) + k)) [0..<9]"
    if "nat (i * 9) + 9 \<le> length xs" for xs :: "byte list"
    using that by (intro nth_equalityI) auto
  then show ?thesis using r assms(4)
    by (simp add: SetPixel_def Pixel_def ps pixelSize_def Let_def nat_add_distrib upt_rec
        nth_list_update)
qed

text \<open>
  C7. For an index \<open>i\<close> inside the buffer (\<open>0 \<le> i < Len\<close>), \<^verbatim>\<open>SetPixel(i, p)\<close> succeeds
  and a following \<^verbatim>\<open>Pixel(i)\<close> returns the red, green and blue of \<open>p\<close> in the RGB layout
  (orange and white read as 0) and all five components in the RGBOW layout, where the nine
  bytes written at the pixel's offset are \<open>R, G, B, O, O, O, W, W, W\<close>. The length bound is
  the one every Go slice satisfies.
\<close>

theorem SetPixel_then_Pixel:
  assumes "0 \<le> i" and "i < Len pb" and "int (length (buf pb)) < 2 ^ 63"
  shows "\<exists>pb'. SetPixel pb i p = Inr pb' \<and> Layout pb' = Layout pb \<and>
     (case Layout pb of
        BufferRGB \<Rightarrow>
          Pixel pb' i = Inr \<lparr>Red = Red p, Green = Green p, Blue = Blue p, Orange = 0, White = 0\<rparr>
      | BufferRGBOW \<Rightarrow>
          Pixel pb' i = Inr p \<and>
          take 9 (drop (nat (i * 9)) (buf pb')) =
            [Red p, Green p, Blue p, Orange p, Orange p, Orange p, White p, White p, White p])"
proof (cases "Layout pb")
  case BufferRGB
  then show ?thesis using SetPixel_Pixel_RGB [OF assms BufferRGB, of p] by auto
next
  case BufferRGBOW
  then show ?thesis using SetPixel_Pixel_RGBOW [OF assms BufferRGBOW, of p] by auto
qed

theorem SetPixel_then_Pixel_witness:
  "(0::int) \<le> 1 \<and> 1 < Len \<lparr>Layout = BufferRGBOW, buf = replicate 18 0\<rparr> \<and>
   (\<exists>pb'. SetPixel \<lparr>Layout = BufferRGBOW, buf = replicate 18 0\<rparr> 1
            \<lparr>Red = 1, Green = 2, Blue = 3, Orange = 4, White = 5\<rparr> = Inr pb' \<and>
          Pixel pb' 1 = Inr \<lparr>Red = 1, Green = 2, Blue = 3, Orange = 4, White = 5\<rparr> \<and>
          take 9 (drop 9 (buf pb')) = [1, 2, 3, 4, 4, 4, 5, 5, 5])"
proof -
  have h: "(1::int) < Len \<lparr>Layout = BufferRGBOW, buf = replicate 18 0\<rparr>"
    by (simp add: Len_def pixelSize_def)
  show ?thesis
    using h SetPixel_then_Pixel [of 1 "\<lparr>Layout = BufferRGBOW, buf = replicate 18 0\<rparr>"
        "\<lparr>Red = 1, Green = 2, Blue = 3, Orange = 4, White = 5\<rparr>"]
    by auto
qed

text \<open>
  Out-of-bounds access, on a buffer whose byte length is a whole number of pixels and for
  an index whose offset does not overflow: \<^verbatim>\<open>Pixel\<close> returns the zero pixel and
  \<^verbatim>\<open>SetPixel\<close> changes nothing.
\<close>

lemma out_of_bounds_aligned:
  assumes "int (length (buf pb)) mod pixelSize pb = 0"
    and "- (2 ^ 63) \<le> i * pixelSize pb" and "i * pixelSize pb < 2 ^ 63"
    and "i < 0 \<or> Len pb \<le> i"
  shows "Pixel pb i = Inr zeroP \<and> SetPixel pb i p = Inr pb"
proof -
  have pos: "0 < pixelSize pb" by (simp add: pixelSize_def split: BufferLayout.splits)
  have w: "wrap64 (i * pixelSize pb) = i * pixelSize pb"
    using assms(2,3) by (rule wrap64_id)
  have len: "Len pb * pixelSize pb = int (length (buf pb))"
    using assms(1) div_mult_mod_eq [of "int (length (buf pb))" "pixelSize pb"]
    by (simp add: Len_def)
  have "i * pixelSize pb < 0 \<or> int (length (buf pb)) \<le> i * pixelSize pb"
  proof (cases "i < 0")
    case True
    then show ?thesis using pos by (simp add: mult_neg_pos)
  next
    case False
    then have "Len pb \<le> i" using assms(4) by simp
    then have "Len pb * pixelSize pb \<le> i * pixelSize pb"
      using pos by (simp add: mult_right_mono)
    then show ?thesis using len by simp
  qed
  then show ?thesis
    by (auto simp: Pixel_def SetPixel_def w Let_def)
qed

text \<open>
  C6. Out-of-bounds access is not always harmless. \<^verbatim>\<open>UseBytes\<close> adopts a slice of any
  length; on four bytes in the RGB layout \<^verbatim>\<open>Len()\<close> is 1, and index 1 (out of bounds)
  passes the guard \<^verbatim>\<open>offset >= len(buf)\<close> because byte 3 exists, so \<^verbatim>\<open>Pixel\<close> and
  \<^verbatim>\<open>SetPixel\<close> panic on byte 4. Independently, for a six-byte RGB buffer (two whole
  pixels) the index 6148914691236517206 is out of bounds, but three times it wraps around
  to 2 in 64 bits, so \<^verbatim>\<open>Pixel\<close> returns the bytes 2, 3, 4 and \<^verbatim>\<open>SetPixel\<close> overwrites
  them.
\<close>

theorem out_of_bounds_access_not_harmless:
  "Len (UseBytes \<lparr>Layout = BufferRGB, buf = []\<rparr> [1, 2, 3, 4]) = 1 \<and>
   Pixel (UseBytes \<lparr>Layout = BufferRGB, buf = []\<rparr> [1, 2, 3, 4]) 1 = Inl IndexOutOfRange \<and>
   SetPixel (UseBytes \<lparr>Layout = BufferRGB, buf = []\<rparr> [1, 2, 3, 4]) 1 p = Inl IndexOutOfRange \<and>
   Len \<lparr>Layout = BufferRGB, buf = [1, 2, 3, 4, 5, 6]\<rparr> = 2 \<and>
   Pixel \<lparr>Layout = BufferRGB, buf = [1, 2, 3, 4, 5, 6]\<rparr> 6148914691236517206 =
     Inr \<lparr>Red = 3, Green = 4, Blue = 5, Orange = 0, White = 0\<rparr> \<and>
   SetPixel \<lparr>Layout = BufferRGB, buf = [1, 2, 3, 4, 5, 6]\<rparr> 6148914691236517206
       \<lparr>Red = 9, Green = 9, Blue = 9, Orange = 0, White = 0\<rparr> =
     Inr \<lparr>Layout = BufferRGB, buf = [1, 2, 9, 9, 9, 6]\<rparr>"
  by (simp add: Len_def UseBytes_def Pixel_def SetPixel_def pixelSize_def wrap64_def Let_def)

subsection \<open>The byte-slice reader and the reading helpers\<close>

lemma remainingSlice_drop: "remainingSlice r = drop (pos r) (Buffer r)"
  by (simp add: remainingSlice_def)

lemma advance_simps [simp]:
  "Buffer (advance r k) = Buffer r" "pos (advance r k) = pos r + k"
  "AlwaysCopy (advance r k) = AlwaysCopy r"
  "advance r 0 = r" "advance (advance r j) k = advance r (j + k)"
  by (simp_all add: advance_def)

lemma remainingSlice_advance [simp]: "remainingSlice (advance r k) = drop k (remainingSlice r)"
  by (simp add: remainingSlice_drop add.commute)

lemma remainingSlice_newR [simp]: "remainingSlice (newR b) = b"
  by (simp add: remainingSlice_drop newR_def)

lemma ReadByte_Cons: "remainingSlice r = b # rest \<Longrightarrow> ReadByte r = (Inr b, advance r 1)"
  by (auto simp: ReadByte_def remainingSlice_def advance_def hd_drop_conv_nth [symmetric]
      split: if_splits)

lemma ReadByte_Nil: "remainingSlice r = [] \<Longrightarrow> ReadByte r = (Inl EOF, r)"
  by (auto simp: ReadByte_def remainingSlice_def split: if_splits)

lemma Next_short:
  "0 \<le> n \<Longrightarrow> n < int (length (remainingSlice r)) \<Longrightarrow>
     Next r n = Inr (take (nat n) (remainingSlice r), None, advance r (nat n))"
  by (simp add: Next_def advance_def Let_def)

lemma Next_EOF:
  "int (length (remainingSlice r)) \<le> n \<Longrightarrow>
     Next r n = Inr (remainingSlice r, Some EOF, advance r (length (remainingSlice r)))"
  by (simp add: Next_def advance_def Let_def)

lemma R_Read_char:
  "R_Read r n = (take n (remainingSlice r),
     if length (remainingSlice r) \<le> n then Some EOF else None,
     advance r (min n (length (remainingSlice r))))"
  by (auto simp: R_Read_def Let_def advance_def remainingSlice_def min_def)

lemma io_ReadFull_char:
  "io_ReadFull r n =
     (if n \<le> length (remainingSlice r) then (take n (remainingSlice r), None, advance r n)
      else if remainingSlice r = [] then ([], Some EOF, r)
      else (remainingSlice r, Some ErrUnexpectedEOF, advance r (length (remainingSlice r))))"
proof (cases "n = 0")
  case True
  then show ?thesis by (simp add: io_ReadFull_def ReadAtLeast_loop.simps)
next
  case False
  then show ?thesis
    by (subst io_ReadFull_def, subst ReadAtLeast_loop.simps)
       (auto simp: R_Read_char min_def ReadAtLeast_loop.simps)
qed

lemma dataio_ReadFull_char:
  "dataio_ReadFull r n =
     (if n \<le> length (remainingSlice r) then (take n (remainingSlice r), None, advance r n)
      else (remainingSlice r, Some EOF, advance r (length (remainingSlice r))))"
proof (cases "n = 0")
  case True
  then show ?thesis by (simp add: dataio_ReadFull_def dataio_ReadFull_loop.simps)
next
  case False
  then show ?thesis
    by (subst dataio_ReadFull_def, subst dataio_ReadFull_loop.simps)
       (auto simp: R_Read_char min_def dataio_ReadFull_loop.simps)
qed

lemma ReadFrom_enough:
  assumes "0 \<le> n * pixelSize pb" "n * pixelSize pb < 2 ^ 63"
    and "n * pixelSize pb \<le> int (length (remainingSlice r))"
  shows "ReadFrom pb r n =
     (Inr (pb\<lparr>buf := take (nat (n * pixelSize pb)) (remainingSlice r)\<rparr>),
      advance r (nat (n * pixelSize pb)))"
proof -
  have w: "wrap64 (n * pixelSize pb) = n * pixelSize pb"
    using assms(1,2) by (intro wrap64_id) linarith+
  show ?thesis
  proof (cases "n * pixelSize pb < int (length (remainingSlice r))")
    case True
    then show ?thesis using assms(1) by (simp add: ReadFrom_def w Next_short Let_def)
  next
    case False
    then have eq: "int (length (remainingSlice r)) = n * pixelSize pb" using assms(3) by simp
    then have "nat (n * pixelSize pb) = length (remainingSlice r)" by simp
    then show ?thesis using eq by (simp add: ReadFrom_def w Next_EOF Let_def)
  qed
qed

lemma ReadFrom_truncated:
  assumes "n * pixelSize pb < 2 ^ 63"
    and "int (length (remainingSlice r)) < n * pixelSize pb"
  shows "ReadFrom pb r n =
     (Inl (Wrap ''could not read pixel buffer'' EOF), advance r (length (remainingSlice r)))"
proof -
  have w: "wrap64 (n * pixelSize pb) = n * pixelSize pb"
    using assms by (intro wrap64_id) linarith+
  show ?thesis using assms(2) by (simp add: ReadFrom_def w Next_EOF Let_def)
qed

subsection \<open>Parsing pixel datagrams\<close>

lemma stripBytes_bounds:
  assumes "0 \<le> PixelsPerStrip pr" "PixelsPerStrip pr * 9 < 2 ^ 63"
  shows "0 \<le> stripBytes pr num \<and> stripBytes pr num < 2 ^ 63 \<and>
    PixelsPerStrip pr * pixelSize \<lparr>Layout = stripLayout pr num, buf = b\<rparr> = stripBytes pr num"
  using assms by (auto simp: stripBytes_def pixelSize_def split: BufferLayout.splits)

lemma ReadFrom_prefix:
  assumes "remainingSlice r = px @ tail" and "int (length px) = n * pixelSize pb"
    and "n * pixelSize pb < 2 ^ 63"
  shows "ReadFrom pb r n = (Inr (pb\<lparr>buf := px\<rparr>), advance r (length px))"
proof -
  have "nat (n * pixelSize pb) = length px" using assms(2) by linarith
  then show ?thesis
    using ReadFrom_enough [of n pb r] assms by simp
qed

lemma ReadFrom_short:
  assumes "remainingSlice r = part" and "int (length part) < n * pixelSize pb"
    and "n * pixelSize pb < 2 ^ 63"
  shows "ReadFrom pb r n =
     (Inl (Wrap ''could not read pixel buffer'' EOF), advance r (length part))"
  using ReadFrom_truncated [of n pb r] assms by simp

lemma readStripStates_step:
  assumes rem: "remainingSlice r = num # px @ tail"
    and num: "unat num < length (StripFlags pr)"
    and pps: "0 \<le> PixelsPerStrip pr" "PixelsPerStrip pr * 9 < 2 ^ 63"
    and len: "int (length px) = stripBytes pr num"
  shows "readStripStates pr r acc =
     readStripStates pr (advance r (1 + length px))
       (acc @ [\<lparr>StripNumber = num, Pixels = \<lparr>Layout = stripLayout pr num, buf = px\<rparr>\<rparr>])"
proof -
  let ?pb = "\<lparr>Layout = stripLayout pr num, buf = []\<rparr>"
  note b = stripBytes_bounds [OF pps, of num "[]"]
  have rb: "ReadByte r = (Inr num, advance r 1)" using rem by (rule ReadByte_Cons)
  have rem1: "remainingSlice (advance r 1) = px @ tail" using rem by simp
  have rf: "ReadFrom ?pb (advance r 1) (PixelsPerStrip pr) =
      (Inr (?pb\<lparr>buf := px\<rparr>), advance r (1 + length px))"
    using ReadFrom_prefix [OF rem1, of "PixelsPerStrip pr" ?pb] b len
    by simp
  have inr: "\<not> int (length (StripFlags pr)) \<le> int (unat num)" using num by linarith
  show ?thesis
    using inr rb rf
    by (subst readStripStates.simps [of pr r acc]) (simp add: stripLayout_def Let_def)
qed

lemma readStripStates_prefix:
  assumes pps: "0 \<le> PixelsPerStrip pr" "PixelsPerStrip pr * 9 < 2 ^ 63"
  shows "list_all (fits_reader pr) ss \<Longrightarrow> remainingSlice r = wire_strips ss @ tail \<Longrightarrow>
     readStripStates pr r acc =
       readStripStates pr (advance r (length (wire_strips ss))) (acc @ ss)"
proof (induction ss arbitrary: r acc)
  case Nil
  then show ?case by (simp add: wire_strips_def)
next
  case (Cons s ss)
  let ?num = "StripNumber s" and ?px = "buf (Pixels s)"
  from Cons.prems(1) have fit: "fits_reader pr s" and rest: "list_all (fits_reader pr) ss"
    by simp_all
  have s_eq: "\<lparr>StripNumber = ?num, Pixels = \<lparr>Layout = stripLayout pr ?num, buf = ?px\<rparr>\<rparr> = s"
    using fit by (simp add: fits_reader_def)
  have rem: "remainingSlice r = ?num # ?px @ (wire_strips ss @ tail)"
    using Cons.prems(2) by (simp add: wire_strips_def wire_strip_def)
  have step: "readStripStates pr r acc =
      readStripStates pr (advance r (1 + length ?px)) (acc @ [s])"
    using readStripStates_step [OF rem _ pps, of acc] fit s_eq
    by (simp add: fits_reader_def)
  have rem': "remainingSlice (advance r (1 + length ?px)) = wire_strips ss @ tail"
    using rem by simp
  show ?case
    using step Cons.IH [OF rest rem', of "acc @ [s]"]
    by (simp add: wire_strips_def wire_strip_def add.commute add.left_commute)
qed

lemma readStripStates_end:
  "remainingSlice r = [] \<Longrightarrow> readStripStates pr r acc = (None, acc, r)"
  by (subst readStripStates.simps) (simp add: ReadByte_Nil)

lemma readStripStates_out_of_range:
  assumes "remainingSlice r = num # rest" and "length (StripFlags pr) \<le> unat num"
  shows "readStripStates pr r acc =
       (Some (ErrStripIndexExceeds num (int (length (StripFlags pr)) - 1)), acc, advance r 1)"
proof -
  have "int (length (StripFlags pr)) \<le> int (unat num)" using assms(2) by linarith
  then show ?thesis using assms(1)
    by (subst readStripStates.simps) (simp add: ReadByte_Cons)
qed

lemma readStripStates_truncated:
  assumes rem: "remainingSlice r = num # part"
    and num: "unat num < length (StripFlags pr)"
    and pps: "0 \<le> PixelsPerStrip pr" "PixelsPerStrip pr * 9 < 2 ^ 63"
    and len: "int (length part) < stripBytes pr num"
  shows "readStripStates pr r acc =
     (Some (Wrap ''could not read pixel buffer'' EOF), acc, advance r (1 + length part))"
proof -
  let ?pb = "\<lparr>Layout = stripLayout pr num, buf = []\<rparr>"
  note b = stripBytes_bounds [OF pps, of num "[]"]
  have rb: "ReadByte r = (Inr num, advance r 1)" using rem by (rule ReadByte_Cons)
  have rem1: "remainingSlice (advance r 1) = part" using rem by simp
  have rf: "ReadFrom ?pb (advance r 1) (PixelsPerStrip pr) =
      (Inl (Wrap ''could not read pixel buffer'' EOF), advance r (1 + length part))"
    using ReadFrom_short [OF rem1, of "PixelsPerStrip pr" ?pb] b len
    by simp
  have inr: "\<not> int (length (StripFlags pr)) \<le> int (unat num)" using num by linarith
  show ?thesis
    using inr rb rf
    by (subst readStripStates.simps [of pr r acc]) (simp add: stripLayout_def Let_def)
qed

lemma ReadPacket_pixel_path:
  assumes "take 16 body \<noteq> CommandMagic"
  shows "ReadPacket pr (newR (PutUint32BE pid @ body)) pkt =
     (case readStripStates pr (advance (newR (PutUint32BE pid @ body)) 4) [] of
        (err, states, r2) \<Rightarrow> (err, pkt\<lparr>ID := pid, StripStates := states\<rparr>, r2))"
proof -
  let ?r = "newR (PutUint32BE pid @ body)"
  have len4: "length (PutUint32BE pid) = 4" by (simp add: PutUint32BE_def)
  have rd: "binary_Read_u32be ?r = (Inr pid, advance ?r 4)"
    using Uint32BE_Put [of pid] len4
    by (simp add: binary_Read_u32be_def io_ReadFull_char)
  have rem: "remainingSlice (advance ?r 4) = body" using len4 by simp
  have pk: "Peek (advance ?r 4) (int (length CommandMagic)) = Inr (take 16 body)"
    using rem by (auto simp: Peek_def Let_def CommandMagic_def)
  show ?thesis using assms rd pk by (simp add: ReadPacket_def Let_def)
qed

lemma ReadPacket_after_strips:
  assumes "0 \<le> PixelsPerStrip pr" and "PixelsPerStrip pr * 9 < 2 ^ 63"
    and "list_all (fits_reader pr) ss"
    and "take 16 (wire_strips ss @ tail) \<noteq> CommandMagic"
    and "r = newR (PutUint32BE pid @ wire_strips ss @ tail)"
  shows "ReadPacket pr r pkt =
     (case readStripStates pr (advance r (4 + length (wire_strips ss))) ss of
        (err, states, r2) \<Rightarrow> (err, pkt\<lparr>ID := pid, StripStates := states\<rparr>, r2))"
    and "remainingSlice (advance r (4 + length (wire_strips ss))) = tail"
    and "length (Buffer r) = 4 + length (wire_strips ss) + length tail"
proof -
  let ?r4 = "advance r 4"
  have len4: "length (PutUint32BE pid) = 4" by (simp add: PutUint32BE_def)
  have path: "ReadPacket pr r pkt =
     (case readStripStates pr ?r4 [] of
        (err, states, r2) \<Rightarrow> (err, pkt\<lparr>ID := pid, StripStates := states\<rparr>, r2))"
    using ReadPacket_pixel_path [OF assms(4), of pr pid pkt] assms(5) by simp
  have rem: "remainingSlice ?r4 = wire_strips ss @ tail"
    using assms(5) len4 by simp
  have pre: "readStripStates pr ?r4 [] =
      readStripStates pr (advance r (4 + length (wire_strips ss))) ss"
    using readStripStates_prefix [OF assms(1,2,3) rem, of "[]"] by simp
  show "ReadPacket pr r pkt =
     (case readStripStates pr (advance r (4 + length (wire_strips ss))) ss of
        (err, states, r2) \<Rightarrow> (err, pkt\<lparr>ID := pid, StripStates := states\<rparr>, r2))"
    using path pre by simp
  show "remainingSlice (advance r (4 + length (wire_strips ss))) = tail"
    using assms(5) len4 by simp
  show "length (Buffer r) = 4 + length (wire_strips ss) + length tail"
    using assms(5) len4 by (simp add: newR_def)
qed

text \<open>
  C4. A datagram that starts with the big-endian packet ID \<open>pid\<close> and does not continue
  with the command magic is parsed strip by strip. After any sequence \<open>ss\<close> of strip states
  that fit the reader: if the data ends there (also when \<open>ss\<close> is empty, right after the
  ID), the parse succeeds with exactly \<open>ss\<close>; if the next strip-number byte is not below
  the number of strip flags, the parse fails with the strip-index error; if the next strip
  has fewer pixel bytes left than the configured strip needs, the parse fails. The reader
  is configured with a non-negative \<^verbatim>\<open>PixelsPerStrip\<close> whose byte count fits an \<^verbatim>\<open>int\<close>.
\<close>

theorem ReadPacket_pixel_datagram:
  assumes "0 \<le> PixelsPerStrip pr" and "PixelsPerStrip pr * 9 < 2 ^ 63"
    and "list_all (fits_reader pr) ss"
    and "take 16 (wire_strips ss @ tail) \<noteq> CommandMagic"
    and "r = newR (PutUint32BE pid @ wire_strips ss @ tail)"
  shows "(tail = [] \<longrightarrow>
            ReadPacket pr r pkt =
              (None, pkt\<lparr>ID := pid, StripStates := ss\<rparr>, advance r (length (Buffer r)))) \<and>
         (\<forall>num rest. tail = num # rest \<and> length (StripFlags pr) \<le> unat num \<longrightarrow>
            ReadPacket pr r pkt =
              (Some (ErrStripIndexExceeds num (int (length (StripFlags pr)) - 1)),
               pkt\<lparr>ID := pid, StripStates := ss\<rparr>, advance r (4 + length (wire_strips ss) + 1))) \<and>
         (\<forall>num part. tail = num # part \<and> unat num < length (StripFlags pr) \<and>
              int (length part) < stripBytes pr num \<longrightarrow>
            ReadPacket pr r pkt =
              (Some (Wrap ''could not read pixel buffer'' EOF),
               pkt\<lparr>ID := pid, StripStates := ss\<rparr>, advance r (length (Buffer r))))"
proof -
  let ?rs = "advance r (4 + length (wire_strips ss))"
  note a = ReadPacket_after_strips [OF assms]
  show ?thesis
  proof (intro conjI allI impI)
    assume "tail = []"
    then show "ReadPacket pr r pkt =
        (None, pkt\<lparr>ID := pid, StripStates := ss\<rparr>, advance r (length (Buffer r)))"
      using a readStripStates_end [of ?rs pr ss] by simp
  next
    fix num rest
    assume "tail = num # rest \<and> length (StripFlags pr) \<le> unat num"
    then show "ReadPacket pr r pkt =
        (Some (ErrStripIndexExceeds num (int (length (StripFlags pr)) - 1)),
         pkt\<lparr>ID := pid, StripStates := ss\<rparr>, advance r (4 + length (wire_strips ss) + 1))"
      using a readStripStates_out_of_range [of ?rs num rest pr ss] by simp
  next
    fix num part
    assume "tail = num # part \<and> unat num < length (StripFlags pr) \<and>
        int (length part) < stripBytes pr num"
    then show "ReadPacket pr r pkt =
        (Some (Wrap ''could not read pixel buffer'' EOF),
         pkt\<lparr>ID := pid, StripStates := ss\<rparr>, advance r (length (Buffer r)))"
      using a readStripStates_truncated [of ?rs num part pr ss, OF _ _ assms(1,2)]
      by (simp add: add.assoc)
  qed
qed

theorem ReadPacket_pixel_datagram_witness:
  "list_all (fits_reader \<lparr>PixelsPerStrip = 2, StripFlags = [0, 1]\<rparr>)
     [\<lparr>StripNumber = 1, Pixels = \<lparr>Layout = BufferRGBOW,
        buf = [1, 2, 3, 4, 4, 4, 5, 5, 5, 6, 7, 8, 9, 9, 9, 10, 10, 10]\<rparr>\<rparr>] \<and>
   ReadPacket \<lparr>PixelsPerStrip = 2, StripFlags = [0, 1]\<rparr>
     (newR ([0xAA, 0xBB, 0xCC, 0xDD, 1] @ [1, 2, 3, 4, 4, 4, 5, 5, 5, 6, 7, 8, 9, 9, 9, 10, 10, 10]))
     \<lparr>ID = 0, Command = None, StripStates = []\<rparr> =
   (None,
    \<lparr>ID = 0xAABBCCDD, Command = None, StripStates =
       [\<lparr>StripNumber = 1, Pixels = \<lparr>Layout = BufferRGBOW,
          buf = [1, 2, 3, 4, 4, 4, 5, 5, 5, 6, 7, 8, 9, 9, 9, 10, 10, 10]\<rparr>\<rparr>]\<rparr>,
    \<lparr>Buffer = [0xAA, 0xBB, 0xCC, 0xDD, 1] @ [1, 2, 3, 4, 4, 4, 5, 5, 5, 6, 7, 8, 9, 9, 9, 10, 10, 10],
     AlwaysCopy = False, pos = 23\<rparr>) \<and>
   ReadPacket \<lparr>PixelsPerStrip = 2, StripFlags = [0, 1]\<rparr> (newR [0xAA, 0xBB, 0xCC, 0xDD, 2, 7])
     \<lparr>ID = 0, Command = None, StripStates = []\<rparr> =
   (Some (ErrStripIndexExceeds 2 1), \<lparr>ID = 0xAABBCCDD, Command = None, StripStates = []\<rparr>,
    \<lparr>Buffer = [0xAA, 0xBB, 0xCC, 0xDD, 2, 7], AlwaysCopy = False, pos = 5\<rparr>) \<and>
   ReadPacket \<lparr>PixelsPerStrip = 2, StripFlags = [0, 1]\<rparr> (newR [0xAA, 0xBB, 0xCC, 0xDD, 0, 7, 7])
     \<lparr>ID = 0, Command = None, StripStates = []\<rparr> =
   (Some (Wrap ''could not read pixel buffer'' EOF),
    \<lparr>ID = 0xAABBCCDD, Command = None, StripStates = []\<rparr>,
    \<lparr>Buffer = [0xAA, 0xBB, 0xCC, 0xDD, 0, 7, 7], AlwaysCopy = False, pos = 7\<rparr>)"
  using
    ReadPacket_pixel_datagram [of "\<lparr>PixelsPerStrip = 2, StripFlags = [0, 1]\<rparr>"
      "[\<lparr>StripNumber = 1, Pixels = \<lparr>Layout = BufferRGBOW,
         buf = [1, 2, 3, 4, 4, 4, 5, 5, 5, 6, 7, 8, 9, 9, 9, 10, 10, 10]\<rparr>\<rparr>]" "[]"
      "newR ([0xAA, 0xBB, 0xCC, 0xDD, 1] @ [1, 2, 3, 4, 4, 4, 5, 5, 5, 6, 7, 8, 9, 9, 9, 10, 10, 10])"
      "0xAABBCCDD" "\<lparr>ID = 0, Command = None, StripStates = []\<rparr>"]
    ReadPacket_pixel_datagram [of "\<lparr>PixelsPerStrip = 2, StripFlags = [0, 1]\<rparr>" "[]" "[2, 7]"
      "newR [0xAA, 0xBB, 0xCC, 0xDD, 2, 7]" "0xAABBCCDD"
      "\<lparr>ID = 0, Command = None, StripStates = []\<rparr>"]
    ReadPacket_pixel_datagram [of "\<lparr>PixelsPerStrip = 2, StripFlags = [0, 1]\<rparr>" "[]" "[0, 7, 7]"
      "newR [0xAA, 0xBB, 0xCC, 0xDD, 0, 7, 7]" "0xAABBCCDD"
      "\<lparr>ID = 0, Command = None, StripStates = []\<rparr>"]
  by (simp add: fits_reader_def wire_strips_def wire_strip_def stripLayout_def stripBytes_def
      PixelBufferLayout_def IsRGBOW_def PutUint32BE_def CommandMagic_def newR_def advance_def)

text \<open>
  C10. \<^verbatim>\<open>Next(n)\<close> returns \<^verbatim>\<open>io.EOF\<close> exactly when \<open>n\<close> is at least the number of bytes
  remaining; when exactly \<open>n\<close> bytes remain, all of them come back together with
  \<^verbatim>\<open>io.EOF\<close>. \<^verbatim>\<open>ReadFrom\<close> takes \<^verbatim>\<open>io.EOF\<close> with a full-length result as success, and so
  a pixel datagram that ends exactly at a strip boundary parses without error.
\<close>

theorem Next_EOF_iff_exhausted:
  "((\<exists>v r'. Next r n = Inr (v, Some EOF, r')) \<longleftrightarrow> Remaining r \<le> n) \<and>
   (Remaining r = n \<longrightarrow>
      Next r n = Inr (remainingSlice r, Some EOF, advance r (nat n)) \<and>
      int (length (remainingSlice r)) = n) \<and>
   (size' * pixelSize pb = Remaining r \<and> size' * pixelSize pb < 2 ^ 63 \<longrightarrow>
      ReadFrom pb r size' =
        (Inr (pb\<lparr>buf := remainingSlice r\<rparr>), advance r (length (remainingSlice r)))) \<and>
   (0 \<le> PixelsPerStrip pr \<and> PixelsPerStrip pr * 9 < 2 ^ 63 \<and>
    list_all (fits_reader pr) ss \<and> take 16 (wire_strips ss) \<noteq> CommandMagic \<longrightarrow>
      ReadPacket pr (newR (PutUint32BE pid @ wire_strips ss)) pkt =
        (None, pkt\<lparr>ID := pid, StripStates := ss\<rparr>,
         advance (newR (PutUint32BE pid @ wire_strips ss)) (4 + length (wire_strips ss))))"
proof (intro conjI impI)
  show "(\<exists>v r'. Next r n = Inr (v, Some EOF, r')) \<longleftrightarrow> Remaining r \<le> n"
    by (auto simp: Next_def Remaining_def Let_def)
next
  assume "Remaining r = n"
  then show "Next r n = Inr (remainingSlice r, Some EOF, advance r (nat n))"
    using Next_EOF [of r n] by (auto simp: Remaining_def)
next
  assume "Remaining r = n"
  then show "int (length (remainingSlice r)) = n" by (simp add: Remaining_def)
next
  assume a: "size' * pixelSize pb = Remaining r \<and> size' * pixelSize pb < 2 ^ 63"
  then have "int (length (remainingSlice r @ [])) = size' * pixelSize pb"
    by (simp add: Remaining_def)
  from ReadFrom_prefix [OF _ this, of r] a
  show "ReadFrom pb r size' =
      (Inr (pb\<lparr>buf := remainingSlice r\<rparr>), advance r (length (remainingSlice r)))"
    by simp
next
  let ?r = "newR (PutUint32BE pid @ wire_strips ss)"
  assume a: "0 \<le> PixelsPerStrip pr \<and> PixelsPerStrip pr * 9 < 2 ^ 63 \<and>
    list_all (fits_reader pr) ss \<and> take 16 (wire_strips ss) \<noteq> CommandMagic"
  then have "ReadPacket pr ?r pkt =
     (case readStripStates pr (advance ?r (4 + length (wire_strips ss))) ss of
        (err, states, r2) \<Rightarrow> (err, pkt\<lparr>ID := pid, StripStates := states\<rparr>, r2))"
    and "remainingSlice (advance ?r (4 + length (wire_strips ss))) = []"
    using ReadPacket_after_strips(1) [of pr ss "[]" ?r pid pkt]
      ReadPacket_after_strips(2) [of pr ss "[]" ?r pid] by simp_all
  then show "ReadPacket pr ?r pkt =
      (None, pkt\<lparr>ID := pid, StripStates := ss\<rparr>, advance ?r (4 + length (wire_strips ss)))"
    using readStripStates_end [of "advance ?r (4 + length (wire_strips ss))" pr ss] by simp
qed

theorem Next_EOF_iff_exhausted_witness:
  "Remaining (newR [1, 2, 3]) = 3 \<and>
   Next (newR [1, 2, 3]) 3 = Inr ([1, 2, 3], Some EOF, \<lparr>Buffer = [1, 2, 3], AlwaysCopy = False, pos = 3\<rparr>) \<and>
   Next (newR [1, 2, 3]) 2 = Inr ([1, 2], None, \<lparr>Buffer = [1, 2, 3], AlwaysCopy = False, pos = 2\<rparr>) \<and>
   ReadFrom \<lparr>Layout = BufferRGB, buf = []\<rparr> (newR [1, 2, 3]) 1 =
     (Inr \<lparr>Layout = BufferRGB, buf = [1, 2, 3]\<rparr>, \<lparr>Buffer = [1, 2, 3], AlwaysCopy = False, pos = 3\<rparr>) \<and>
   ReadPacket \<lparr>PixelsPerStrip = 1, StripFlags = [0]\<rparr> (newR [0, 0, 0, 9, 0, 1, 2, 3])
     \<lparr>ID = 0, Command = None, StripStates = []\<rparr> =
     (None, \<lparr>ID = 9, Command = None,
        StripStates = [\<lparr>StripNumber = 0, Pixels = \<lparr>Layout = BufferRGB, buf = [1, 2, 3]\<rparr>\<rparr>]\<rparr>,
      \<lparr>Buffer = [0, 0, 0, 9, 0, 1, 2, 3], AlwaysCopy = False, pos = 8\<rparr>)"
proof -
  have n2: "Next (newR [1, 2, 3]) 2 =
      Inr ([1, 2], None, \<lparr>Buffer = [1, 2, 3], AlwaysCopy = False, pos = 2\<rparr>)"
    by (simp add: Next_def newR_def remainingSlice_def Let_def)
  show ?thesis
    using n2
      Next_EOF_iff_exhausted [of "newR [1, 2, 3]" 3 1 "\<lparr>Layout = BufferRGB, buf = []\<rparr>"
        "\<lparr>PixelsPerStrip = 1, StripFlags = [0]\<rparr>"
        "[\<lparr>StripNumber = 0, Pixels = \<lparr>Layout = BufferRGB, buf = [1, 2, 3]\<rparr>\<rparr>]" 9
        "\<lparr>ID = 0, Command = None, StripStates = []\<rparr>"]
    by (simp add: Remaining_def pixelSize_def fits_reader_def wire_strips_def wire_strip_def
        stripLayout_def stripBytes_def PixelBufferLayout_def IsRGBOW_def PutUint32BE_def
        CommandMagic_def newR_def advance_def remainingSlice_def)
qed

subsection \<open>Commands\<close>

lemma struc_Unpack_fields:
  "remainingSlice r = concat fs @ rest \<Longrightarrow> map length fs = sizes \<Longrightarrow>
     struc_Unpack r sizes = (Inr fs, advance r (length (concat fs)))"
proof (induction fs arbitrary: r sizes)
  case Nil
  then show ?case by simp
next
  case (Cons f fs)
  then obtain ns where sizes: "sizes = length f # ns" and ns: "map length fs = ns" by auto
  have rd: "io_ReadFull r (length f) = (f, None, advance r (length f))"
    using Cons.prems(1) by (simp add: io_ReadFull_char)
  have rem: "remainingSlice (advance r (length f)) = concat fs @ rest"
    using Cons.prems(1) by simp
  show ?case
    using rd Cons.IH [OF rem ns] by (simp add: sizes add.commute add.left_commute)
qed

lemma readNULLTerminatedString_char:
  "remainingSlice r = s @ 0 # rest \<Longrightarrow> 0 \<notin> set s \<Longrightarrow>
     readNULLTerminatedString r acc = (Inr (acc @ s), advance r (length s + 1))"
proof (induction s arbitrary: r acc)
  case Nil
  then have "ReadByte r = (Inr 0, advance r 1)" by (simp add: ReadByte_Cons)
  then show ?case by (subst readNULLTerminatedString.simps) simp
next
  case (Cons b s)
  then have rb: "ReadByte r = (Inr b, advance r 1)" and nz: "b \<noteq> 0" by (auto simp: ReadByte_Cons)
  have rem: "remainingSlice (advance r 1) = s @ 0 # rest" using Cons.prems(1) by simp
  have "readNULLTerminatedString r acc = readNULLTerminatedString (advance r 1) (acc @ [b])"
    using rb nz by (subst readNULLTerminatedString.simps) simp
  also have "\<dots> = (Inr ((acc @ [b]) @ s), advance (advance r 1) (length s + 1))"
    using Cons.IH [OF rem] Cons.prems(2) by simp
  finally show ?case by (simp add: add.commute)
qed

lemma length_Put [simp]:
  "length (PutUint16LE a) = 2" "length (PutUint32LE b) = 4" "length (PutUint64LE c) = 8"
  "length (PutUint32BE b) = 4"
  by (simp_all add: PutUint16LE_def PutUint32LE_def PutUint64LE_def PutUint32BE_def)

lemma LoadContentFrom_WriteContentTo:
  assumes "noNUL cmd" and "remainingSlice r = WriteContentTo cmd @ rest"
  shows "LoadContentFrom (CommandID cmd) r = (Inr cmd, advance r (length (WriteContentTo cmd)))"
proof (cases cmd)
  case ResetCommand
  then show ?thesis by (simp add: LoadContentFrom_def)
next
  case (GlobalBrightnessSetCommand p)
  have "struc_Unpack r [2] = (Inr [PutUint16LE p], advance r (length (concat [PutUint16LE p])))"
    using assms(2) GlobalBrightnessSetCommand by (intro struc_Unpack_fields [where rest = rest]) simp_all
  then show ?thesis using GlobalBrightnessSetCommand
    by (simp add: LoadContentFrom_def Uint16LE_Put)
next
  case (StripBrightnessSetCommand n p)
  have "struc_Unpack r [1, 2] =
      (Inr [[n], PutUint16LE p], advance r (length (concat [[n], PutUint16LE p])))"
    using assms(2) StripBrightnessSetCommand by (intro struc_Unpack_fields [where rest = rest]) simp_all
  then show ?thesis using StripBrightnessSetCommand
    by (simp add: LoadContentFrom_def Uint16LE_Put)
next
  case (WiFiConfigureCommand ssid key sec)
  then have nz: "0 \<notin> set ssid" "0 \<notin> set key" using assms(1) by simp_all
  have rem0: "remainingSlice r = ssid @ 0 # (key @ 0 # sec # rest)"
    using assms(2) WiFiConfigureCommand by simp
  have s1: "readNULLTerminatedString r [] = (Inr ssid, advance r (length ssid + 1))"
    using readNULLTerminatedString_char [OF rem0 nz(1), of "[]"] by simp
  have rem1: "remainingSlice (advance r (length ssid + 1)) = key @ 0 # (sec # rest)"
    using rem0 by simp
  have s2: "readNULLTerminatedString (advance r (length ssid + 1)) [] =
      (Inr key, advance r (length ssid + 1 + (length key + 1)))"
    using readNULLTerminatedString_char [OF rem1 nz(2), of "[]"] by simp
  have rem2: "remainingSlice (advance r (length ssid + 1 + (length key + 1))) = sec # rest"
    using rem0 by simp
  have s3: "ReadByte (advance r (length ssid + 1 + (length key + 1))) =
      (Inr sec, advance r (length ssid + 1 + (length key + 1) + 1))"
    using ReadByte_Cons [OF rem2] by simp
  show ?thesis using WiFiConfigureCommand s1 s2 s3
    by (simp add: LoadContentFrom_def add.commute add.left_commute)
next
  case (LEDConfigureCommand a b c d e f g h)
  let ?fs = "[PutUint32LE a, PutUint32LE b, PutUint64LE c, PutUint64LE d,
              PutUint16LE e, PutUint16LE f, PutUint16LE g, PutUint16LE h]"
  have "struc_Unpack r [4, 4, 8, 8, 2, 2, 2, 2] = (Inr ?fs, advance r (length (concat ?fs)))"
    using assms(2) LEDConfigureCommand by (intro struc_Unpack_fields [where rest = rest]) simp_all
  then show ?thesis using LEDConfigureCommand
    by (simp add: LoadContentFrom_def Uint16LE_Put Uint32LE_Put Uint64LE_Put)
qed

lemma CommandID_known: "CommandID cmd \<in> {0x01, 0x02, 0x03, 0x04, 0x05}"
  by (cases cmd) simp_all

lemma ReadCommand_WriteCommand:
  assumes "noNUL cmd" and "remainingSlice r = WriteCommand cmd magic @ rest"
  shows "ReadCommand r magic = (Inr cmd, advance r (length (WriteCommand cmd magic)))"
proof -
  let ?m = "if magic then 16 else (0::nat)"
  have rem1: "remainingSlice (advance r ?m) = CommandID cmd # WriteContentTo cmd @ rest"
    using assms(2) by (simp add: WriteCommand_def CommandMagic_def)
  have rb: "ReadByte (advance r ?m) = (Inr (CommandID cmd), advance r (?m + 1))"
    using ReadByte_Cons [OF rem1] by simp
  have rem2: "remainingSlice (advance r (?m + 1)) = WriteContentTo cmd @ rest"
    using rem1 by (metis advance_simps(5) drop0 drop_Suc_Cons remainingSlice_advance One_nat_def)
  note lc = LoadContentFrom_WriteContentTo [OF assms(1) rem2]
  show ?thesis
  proof (cases magic)
    case True
    have "dataio_ReadFull r (length CommandMagic) = (CommandMagic, None, advance r 16)"
      using assms(2) True by (simp add: dataio_ReadFull_char WriteCommand_def CommandMagic_def)
    then show ?thesis using True rb lc CommandID_known [of cmd]
      by (simp add: ReadCommand_def WriteCommand_def CommandMagic_def del: insert_iff)
  next
    case False
    then show ?thesis using rb lc CommandID_known [of cmd]
      by (simp add: ReadCommand_def WriteCommand_def del: insert_iff)
  qed
qed

text \<open>
  C9 as stated fails: a Go string may hold a NUL byte, and the wire format ends the SSID
  and the key at the first NUL. The WiFi command with SSID \<open>a\<close> NUL \<open>b\<close>, key \<open>k\<close> and
  security 2 is decoded as SSID \<open>a\<close>, key \<open>b\<close>, security \<open>k\<close>, and re-encoding that gives
  other bytes.
\<close>

theorem command_roundtrip_counterexample:
  "fst (ReadCommand (newR (WriteCommand (WiFiConfigureCommand [0x61, 0x00, 0x62] [0x6b] 2) True)) True)
     = Inr (WiFiConfigureCommand [0x61] [0x62] 0x6b) \<and>
   WriteCommand (WiFiConfigureCommand [0x61] [0x62] 0x6b) True
     \<noteq> WriteCommand (WiFiConfigureCommand [0x61, 0x00, 0x62] [0x6b] 2) True"
  by (simp add: WriteCommand_def CommandMagic_def ReadCommand_def dataio_ReadFull_char
      newR_def remainingSlice_def ReadByte_def LoadContentFrom_def advance_def
      readNULLTerminatedString.simps)

text \<open>
  C9, amended. For every command of the five kinds whose WiFi SSID and key (if any) hold
  no NUL byte, decoding the encoding with the magic prefix gives back the command, with
  the reader at the end of the data, and re-encoding the decoded command gives the same
  bytes.
\<close>

theorem command_roundtrip:
  assumes "noNUL cmd"
  shows "ReadCommand (newR (WriteCommand cmd True)) True =
           (Inr cmd, advance (newR (WriteCommand cmd True)) (length (WriteCommand cmd True))) \<and>
         (\<forall>cmd' r'. ReadCommand (newR (WriteCommand cmd True)) True = (Inr cmd', r') \<longrightarrow>
            WriteCommand cmd' True = WriteCommand cmd True)"
  using ReadCommand_WriteCommand [OF assms, of "newR (WriteCommand cmd True)" True "[]"]
  by simp

theorem command_roundtrip_witness:
  "noNUL (WiFiConfigureCommand [0x6f, 0x68] [0x6b] 2) \<and>
   noNUL (LEDConfigureCommand 0x12345678 0x89ABCDEF 0x0001020304050607 4 0xFACE 0xBEEF 0x4455 0x2233) \<and>
   fst (ReadCommand (newR (CommandMagic @ [0x03, 0x6f, 0x68, 0, 0x6b, 0, 2])) True)
     = Inr (WiFiConfigureCommand [0x6f, 0x68] [0x6b] 2) \<and>
   fst (ReadCommand (newR (CommandMagic @ [0x04, 0x78, 0x56, 0x34, 0x12, 0xEF, 0xCD, 0xAB, 0x89,
          0x07, 0x06, 0x05, 0x04, 0x03, 0x02, 0x01, 0x00, 0x04, 0x00, 0x00, 0x00, 0x00, 0x00, 0x00, 0x00,
          0xCE, 0xFA, 0xEF, 0xBE, 0x55, 0x44, 0x33, 0x22])) True)
     = Inr (LEDConfigureCommand 0x12345678 0x89ABCDEF 0x0001020304050607 4 0xFACE 0xBEEF 0x4455 0x2233)"
proof -
  have e1: "WriteCommand (WiFiConfigureCommand [0x6f, 0x68] [0x6b] 2) True =
      CommandMagic @ [0x03, 0x6f, 0x68, 0, 0x6b, 0, 2]"
    by (simp add: WriteCommand_def)
  have e2: "WriteCommand (LEDConfigureCommand 0x12345678 0x89ABCDEF 0x0001020304050607 4
        0xFACE 0xBEEF 0x4455 0x2233) True =
      CommandMagic @ [0x04, 0x78, 0x56, 0x34, 0x12, 0xEF, 0xCD, 0xAB, 0x89,
          0x07, 0x06, 0x05, 0x04, 0x03, 0x02, 0x01, 0x00, 0x04, 0x00, 0x00, 0x00, 0x00, 0x00, 0x00, 0x00,
          0xCE, 0xFA, 0xEF, 0xBE, 0x55, 0x44, 0x33, 0x22]"
    by (simp add: WriteCommand_def PutUint16LE_def PutUint32LE_def PutUint64LE_def)
  show ?thesis
    using command_roundtrip [of "WiFiConfigureCommand [0x6f, 0x68] [0x6b] 2", unfolded e1]
      command_roundtrip [of "LEDConfigureCommand 0x12345678 0x89ABCDEF 0x0001020304050607 4
        0xFACE 0xBEEF 0x4455 0x2233", unfolded e2]
    by simp
qed

subsection \<open>The packet stream\<close>

lemma counted_refl: "NextID ps' = NextID ps \<Longrightarrow> datagrams ds' = datagrams ds \<Longrightarrow> counted ps ds ps' ds'"
  by (simp add: counted_def)

lemma counted_trans:
  assumes "counted ps ds ps1 ds1" and "counted ps1 ds1 ps2 ds2"
  shows "counted ps ds ps2 ds2"
proof -
  from assms(1) obtain n1 where a: "datagrams ds1 = datagrams ds @ n1"
    "NextID ps1 = NextID ps + of_nat (length n1)"
    "map (take 4) n1 = map (\<lambda>k. PutUint32BE (NextID ps + of_nat k)) [0..<length n1]"
    by (auto simp: counted_def)
  from assms(2) obtain n2 where b: "datagrams ds2 = datagrams ds1 @ n2"
    "NextID ps2 = NextID ps1 + of_nat (length n2)"
    "map (take 4) n2 = map (\<lambda>k. PutUint32BE (NextID ps1 + of_nat k)) [0..<length n2]"
    by (auto simp: counted_def)
  let ?F = "\<lambda>k. PutUint32BE (NextID ps + of_nat k)"
  have up: "[0..<length n1 + length n2] = [0..<length n1] @ map (\<lambda>k. length n1 + k) [0..<length n2]"
    by (intro nth_equalityI) (auto simp: nth_append)
  have "map (take 4) (n1 @ n2) =
      map ?F [0..<length n1] @ map (\<lambda>k. PutUint32BE (NextID ps1 + of_nat k)) [0..<length n2]"
    using a(3) b(3) by simp
  also have "\<dots> = map ?F [0..<length n1] @ map ?F (map (\<lambda>k. length n1 + k) [0..<length n2])"
    unfolding a(2) by (simp add: comp_def add.assoc)
  also have "\<dots> = map ?F [0..<length n1 + length n2]"
    unfolding up by simp
  finally have "map ?F [0..<length (n1 @ n2)] = map (take 4) (n1 @ n2)" by simp
  then show ?thesis
    unfolding counted_def using a(1,2) b(1,2)
    by (intro exI [of _ "n1 @ n2"]) (simp add: add.assoc)
qed

lemma counted_once:
  assumes "NextID ps' = NextID ps + 1" and "datagrams ds' = datagrams ds @ [d]"
    and "take 4 d = PutUint32BE (NextID ps)"
  shows "counted ps ds ps' ds'"
  unfolding counted_def using assms by (intro exI [of _ "[d]"]) simp

lemma SendDatagram_cases:
  "SendDatagram ds b = (err, ds') \<Longrightarrow>
     maxDatagramSize ds' = maxDatagramSize ds \<and> handed ds' = handed ds @ [b] \<and>
     (case err of None \<Rightarrow> datagrams ds' = datagrams ds @ [b]
      | Some e \<Rightarrow> datagrams ds' = datagrams ds)"
  by (auto simp: SendDatagram_def split: list.splits option.splits)

lemma finalize_counted:
  assumes "finalizeAndSendPacket ps ds b = (err, ps', ds', b')"
  shows "counted ps ds ps' ds'"
    and "maxDatagramSize ds' = maxDatagramSize ds"
    and "ps' = ps \<or> ps' = ps\<lparr>NextID := NextID ps + 1\<rparr>"
    and "err \<noteq> None \<Longrightarrow> ps' = ps \<and> datagrams ds' = datagrams ds"
proof -
  have pre: "take 4 (PutUint32BE v @ xs) = PutUint32BE v" for v xs
    by (simp add: PutUint32BE_def)
  have all: "counted ps ds ps' ds' \<and> maxDatagramSize ds' = maxDatagramSize ds \<and>
     (ps' = ps \<or> ps' = ps\<lparr>NextID := NextID ps + 1\<rparr>) \<and>
     (err \<noteq> None \<longrightarrow> ps' = ps \<and> datagrams ds' = datagrams ds)"
  proof (cases "length b < 4 \<or> int (length (PutUint32BE (NextID ps) @ drop 4 b)) > MaxDatagramSize ds")
    case True
    then show ?thesis using assms
      by (auto simp: finalizeAndSendPacket_def Let_def counted_refl split: if_splits)
  next
    case False
    let ?b1 = "PutUint32BE (NextID ps) @ drop 4 b"
    let ?b2 = "if FixedSize ps > 0 \<and> int (length ?b1) < FixedSize ps
               then ?b1 @ replicate (nat (FixedSize ps - int (length ?b1))) 0x00 else ?b1"
    obtain e dsx where sd: "SendDatagram ds ?b2 = (e, dsx)" by fastforce
    have t4: "take 4 ?b2 = PutUint32BE (NextID ps)" by (simp add: PutUint32BE_def)
    note c = SendDatagram_cases [OF sd]
    show ?thesis
    proof (cases e)
      case None
      then have "ps' = ps\<lparr>NextID := NextID ps + 1\<rparr>" "ds' = dsx" "err = None"
        using assms False sd by (auto simp: finalizeAndSendPacket_def Let_def)
      then show ?thesis using c None t4 by (auto intro!: counted_once [where d = ?b2])
    next
      case (Some x)
      then have "ps' = ps" "ds' = dsx"
        using assms False sd by (auto simp: finalizeAndSendPacket_def Let_def)
      then show ?thesis using c Some by (auto intro!: counted_refl)
    qed
  qed
  from all show "counted ps ds ps' ds'" "maxDatagramSize ds' = maxDatagramSize ds"
    "ps' = ps \<or> ps' = ps\<lparr>NextID := NextID ps + 1\<rparr>"
    "err \<noteq> None \<Longrightarrow> ps' = ps \<and> datagrams ds' = datagrams ds"
    by auto
qed

lemma counted_cong:
  "counted ps ds ps' ds' \<Longrightarrow> NextID qs = NextID ps \<Longrightarrow> NextID qs' = NextID ps' \<Longrightarrow>
     counted qs ds qs' ds'"
  by (simp add: counted_def)

lemma SendCommand_counted:
  assumes "SendCommand ps ds cmd = (err, ps', ds')"
  shows "counted ps ds ps' ds'"
proof -
  let ?b = "resetPacketBuffer (commandBuf ps) @ WriteCommand cmd True"
  obtain e p d b' where f: "finalizeAndSendPacket (ps\<lparr>commandBuf := ?b\<rparr>) ds ?b = (e, p, d, b')"
    by (metis prod_cases4)
  then have r: "ps' = p\<lparr>commandBuf := b'\<rparr>" "ds' = d"
    using assms by (auto simp: SendCommand_def Let_def)
  from finalize_counted(1) [OF f] show ?thesis
    using r by (auto elim!: counted_cong)
qed

lemma Flush_counted:
  assumes "Flush ps ds = (err, ps', ds')"
  shows "counted ps ds ps' ds'"
proof (cases "stripStateCount ps = 0")
  case True
  then show ?thesis using assms by (auto simp: Flush_def intro: counted_refl)
next
  case False
  obtain e p d b' where f: "finalizeAndSendPacket ps ds (stripStateBuf ps) = (e, p, d, b')"
    by (metis prod_cases4)
  then have "NextID ps' = NextID p" "ds' = d"
    using assms False by (auto simp: Flush_def split: option.splits)
  with finalize_counted(1) [OF f] show ?thesis
    by (auto elim!: counted_cong)
qed

lemma appendStripState_counted:
  assumes "appendStripState ps ds ss data = (err, ps', ds')"
  shows "counted ps ds ps' ds'"
proof -
  let ?ps1 = "ps\<lparr>stripStateBuf := stripStateBuf ps @ [StripNumber ss] @ data,
                 stripStateCount := stripStateCount ps + 1\<rparr>"
  show ?thesis
  proof (cases "stripStateCount ?ps1 \<ge> int (unat (MaxStripsPerPacket ?ps1))")
    case True
    then have "Flush ?ps1 ds = (err, ps', ds')"
      using assms by (simp add: appendStripState_def Let_def)
    from Flush_counted [OF this] show ?thesis by (auto elim!: counted_cong)
  next
    case False
    then have "ps' = ?ps1" "ds' = ds"
      using assms by (auto simp: appendStripState_def Let_def)
    then show ?thesis by (auto intro: counted_refl)
  qed
qed

lemma enqueueWithinLimit_counted:
  assumes "enqueueWithinLimit ps ds ss data = (err, ps', ds')"
  shows "counted ps ds ps' ds'"
proof -
  let ?mps = "calculateMaxPacketSize ps ds"
  let ?size = "1 + int (length data)"
  consider (fits) "\<not> (?mps > 0 \<and> int (length (stripStateBuf ps)) + ?size > ?mps)"
    | (empty) "?mps > 0 \<and> int (length (stripStateBuf ps)) + ?size > ?mps" "stripStateCount ps = 0"
    | (flush) "?mps > 0 \<and> int (length (stripStateBuf ps)) + ?size > ?mps" "stripStateCount ps \<noteq> 0"
    by blast
  then show ?thesis
  proof cases
    case fits
    have "appendStripState ps ds ss data = (err, ps', ds')"
      using assms [unfolded enqueueWithinLimit_def Let_def if_not_P [OF fits]] .
    then show ?thesis by (rule appendStripState_counted)
  next
    case empty
    have "(Some ErrStripDataTooLarge, ps, ds) = (err, ps', ds')"
      using assms [unfolded enqueueWithinLimit_def Let_def if_P [OF empty(1)] if_P [OF empty(2)]] .
    then show ?thesis by (auto intro: counted_refl)
  next
    case flush
    obtain e p d where fl: "Flush ps ds = (e, p, d)" by (metis prod_cases3)
    note c1 = Flush_counted [OF fl]
    have body: "(case (e, p, d) of
                 (Some e, ps2, ds2) \<Rightarrow> (Some e, ps2, ds2)
               | (None, ps2, ds2) \<Rightarrow>
                   if int (length (stripStateBuf ps2)) + ?size > ?mps
                   then (Some ErrStripDataTooLarge, ps2, ds2)
                   else appendStripState ps2 ds2 ss data) = (err, ps', ds')"
      using assms [unfolded enqueueWithinLimit_def Let_def if_P [OF flush(1)]
          if_not_P [OF flush(2)] fl] .
    show ?thesis
    proof (cases e)
      case (Some x)
      then have "ps' = p" "ds' = d" using body by auto
      then show ?thesis using c1 by simp
    next
      case None
      show ?thesis
      proof (cases "int (length (stripStateBuf p)) + ?size > ?mps")
        case True
        then have "ps' = p" "ds' = d" using body None by auto
        then show ?thesis using c1 by simp
      next
        case False
        then have "appendStripState p d ss data = (err, ps', ds')" using body None by auto
        from counted_trans [OF c1 appendStripState_counted [OF this]] show ?thesis .
      qed
    qed
  qed
qed

lemma SendOrEnqueueStripState_counted:
  assumes "SendOrEnqueueStripState ps ds ss0 = (err, ps', ds')"
  shows "counted ps ds ps' ds'"
proof (cases "length (buf (Pixels ss0)) = 0")
  case True
  then show ?thesis using assms by (auto simp: SendOrEnqueueStripState_def intro: counted_refl)
next
  case False
  let ?ps1 = "if stripStateCount ps = 0
              then ps\<lparr>stripStateBuf := resetPacketBuffer (stripStateBuf ps)\<rparr> else ps"
  have "enqueueWithinLimit ?ps1 ds (conformStripState ps ss0) (buf (Pixels ss0)) = (err, ps', ds')"
    using assms False by (simp add: SendOrEnqueueStripState_def Let_def)
  from enqueueWithinLimit_counted [OF this] show ?thesis
    by (rule counted_cong) simp_all
qed

lemma sendStripStates_counted:
  "sendStripStates ps ds sss = (err, ps', ds') \<Longrightarrow> counted ps ds ps' ds'"
proof (induction sss arbitrary: ps ds)
  case Nil
  then show ?case by (auto intro: counted_refl)
next
  case (Cons ss rest)
  obtain e p d where s: "SendOrEnqueueStripState ps ds ss = (e, p, d)" by (metis prod_cases3)
  note c1 = SendOrEnqueueStripState_counted [OF s]
  show ?case
  proof (cases e)
    case None
    then have "sendStripStates p d rest = (err, ps', ds')" using Cons.prems s by simp
    from counted_trans [OF c1 Cons.IH [OF this]] show ?thesis .
  next
    case (Some x)
    then have "ps' = p" "ds' = d" using Cons.prems s by auto
    then show ?thesis using c1 by simp
  qed
qed

lemma apply_op_counted:
  assumes "apply_op ps ds x = (err, ps', ds')"
  shows "counted ps ds ps' ds'"
proof (cases x)
  case (OpSend pkt)
  then show ?thesis using assms
    by (auto simp: Send_def split: option.splits
        intro: SendCommand_counted sendStripStates_counted)
next
  case (OpSendCommand cmd)
  then show ?thesis using assms by (auto intro: SendCommand_counted)
next
  case (OpEnqueue ss)
  then show ?thesis using assms by (auto intro: SendOrEnqueueStripState_counted)
next
  case OpFlush
  then show ?thesis using assms by (auto intro: Flush_counted)
qed

lemma run_ops_counted:
  "run_ops ps ds xs = (ps', ds') \<Longrightarrow> counted ps ds ps' ds'"
proof (induction xs arbitrary: ps ds)
  case Nil
  then show ?case by (auto intro: counted_refl)
next
  case (Cons x xs)
  obtain e p d where s: "apply_op ps ds x = (e, p, d)" by (metis prod_cases3)
  then have "run_ops p d xs = (ps', ds')" using Cons.prems by simp
  from counted_trans [OF apply_op_counted [OF s] Cons.IH [OF this]] show ?case .
qed

lemma finalize_failure:
  assumes "finalizeAndSendPacket ps ds b = (Some e, ps', ds', b')"
  shows "ps' = ps" and "datagrams ds' = datagrams ds"
    and "take (length b - 4) (drop 4 b') = drop 4 b"
  using assms
  by (auto simp: finalizeAndSendPacket_def Let_def PutUint32BE_def SendDatagram_def
      split: if_splits list.splits option.splits)

lemma Flush_failure:
  assumes "Flush ps ds = (Some e, ps', ds')"
  shows "ps' = ps\<lparr>stripStateBuf := stripStateBuf ps'\<rparr>" and "datagrams ds' = datagrams ds"
    and "take (length (stripStateBuf ps) - 4) (drop 4 (stripStateBuf ps')) = drop 4 (stripStateBuf ps)"
proof -
  have nz: "stripStateCount ps \<noteq> 0" using assms by (auto simp: Flush_def split: if_splits)
  obtain x p d b' where f: "finalizeAndSendPacket ps ds (stripStateBuf ps) = (x, p, d, b')"
    by (metis prod_cases4)
  then have r: "x = Some e" "ps' = p\<lparr>stripStateBuf := b'\<rparr>" "ds' = d"
    using assms nz by (auto simp: Flush_def split: option.splits)
  note ff = finalize_failure [OF f [unfolded r(1)]]
  show "ps' = ps\<lparr>stripStateBuf := stripStateBuf ps'\<rparr>" using r ff by simp
  show "datagrams ds' = datagrams ds" using r ff by simp
  show "take (length (stripStateBuf ps) - 4) (drop 4 (stripStateBuf ps')) = drop 4 (stripStateBuf ps)"
    using r ff by simp
qed

lemma finalize_buffer_prefix:
  "finalizeAndSendPacket (ps\<lparr>stripStateBuf := x\<rparr>) ds b =
     (case finalizeAndSendPacket ps ds b of
        (err, ps', ds', b') \<Rightarrow> (err, ps'\<lparr>stripStateBuf := x\<rparr>, ds', b'))"
  by (auto simp: finalizeAndSendPacket_def Let_def split: prod.splits option.splits)

lemma finalize_retry:
  assumes "finalizeAndSendPacket ps ds b = (Some e, ps', ds', b')"
    and "maxDatagramSize ds2 = maxDatagramSize ds" and "FixedSize ps \<le> maxDatagramSize ds"
  shows "finalizeAndSendPacket ps ds2 b' = finalizeAndSendPacket ps ds2 b"
proof (cases "length b < 4")
  case True
  then show ?thesis using assms(1) by (auto simp: finalizeAndSendPacket_def)
next
  case len: False
  let ?b1 = "PutUint32BE (NextID ps) @ drop 4 b"
  have l1: "length ?b1 = length b" using len by simp
  have d1: "PutUint32BE (NextID ps) @ drop 4 ?b1 = ?b1" by simp
  show ?thesis
  proof (cases "int (length ?b1) > MaxDatagramSize ds")
    case True
    then have "b' = ?b1" using assms(1) len by (auto simp: finalizeAndSendPacket_def Let_def)
    then show ?thesis using len l1 d1 by (simp add: finalizeAndSendPacket_def Let_def)
  next
    case small: False
    let ?b2 = "if FixedSize ps > 0 \<and> int (length ?b1) < FixedSize ps
               then ?b1 @ replicate (nat (FixedSize ps - int (length ?b1))) 0x00 else ?b1"
    have b': "b' = ?b2"
      using assms(1) len small
      by (auto simp: finalizeAndSendPacket_def Let_def split: prod.splits option.splits)
    have d2: "PutUint32BE (NextID ps) @ drop 4 ?b2 = ?b2" by simp
    have len2: "4 \<le> length ?b2" by simp
    have fit: "\<not> int (length ?b2) > MaxDatagramSize ds2"
      using small assms(2,3) by (auto simp: MaxDatagramSize_def)
    have nopad: "\<not> (FixedSize ps > 0 \<and> int (length ?b2) < FixedSize ps)" by auto
    have small2: "\<not> int (length ?b1) > MaxDatagramSize ds2"
      using small assms(2) by (simp add: MaxDatagramSize_def)
    have lhs: "finalizeAndSendPacket ps ds2 ?b2 =
        (case SendDatagram ds2 ?b2 of
           (Some e, ds') \<Rightarrow> (Some e, ps, ds', ?b2)
         | (None, ds') \<Rightarrow> (None, ps\<lparr>NextID := NextID ps + 1\<rparr>, ds', resetPacketBuffer ?b2))"
      unfolding finalizeAndSendPacket_def Let_def d2
      using len2 fit nopad by (simp only: if_False not_less [symmetric] if_not_P) 
    have rhs: "finalizeAndSendPacket ps ds2 b =
        (case SendDatagram ds2 ?b2 of
           (Some e, ds') \<Rightarrow> (Some e, ps, ds', ?b2)
         | (None, ds') \<Rightarrow> (None, ps\<lparr>NextID := NextID ps + 1\<rparr>, ds', resetPacketBuffer ?b2))"
      unfolding finalizeAndSendPacket_def Let_def
      using len small2 by (simp only: if_False if_not_P)
    show ?thesis unfolding b' lhs rhs ..
  qed
qed

lemma Flush_retry:
  assumes "Flush ps ds = (Some e, ps', ds')"
    and "maxDatagramSize ds2 = maxDatagramSize ds" and "FixedSize ps \<le> maxDatagramSize ds"
  shows "Flush ps' ds2 = Flush ps ds2"
proof -
  have nz: "stripStateCount ps \<noteq> 0" using assms by (auto simp: Flush_def split: if_splits)
  obtain x p d b' where f: "finalizeAndSendPacket ps ds (stripStateBuf ps) = (x, p, d, b')"
    by (metis prod_cases4)
  then have r: "x = Some e" "ps' = p\<lparr>stripStateBuf := b'\<rparr>"
    using assms nz by (auto simp: Flush_def split: option.splits)
  note f' = f [unfolded r(1)]
  have p: "p = ps" using finalize_failure(1) [OF f'] .
  have eq: "finalizeAndSendPacket ps ds2 b' = finalizeAndSendPacket ps ds2 (stripStateBuf ps)"
    using finalize_retry [OF f' assms(2,3)] .
  show ?thesis
    unfolding r(2) p
    by (simp add: Flush_def nz finalize_buffer_prefix eq split: prod.splits option.splits)
qed

text \<open>
  C2. A flush whose send fails does not leave the buffered strip states as they were, and
  the retry does not send them. With \<^verbatim>\<open>FixedSize = 40\<close> and a sender whose maximum is 30,
  one three-byte strip is buffered (8 bytes with the ID prefix). The flush passes the size
  check with 8 bytes, pads the strip buffer itself to 40 bytes and hands the 40 bytes to
  the sender, whose send fails. \<^verbatim>\<open>NextID\<close> and the strip count are unchanged, but the
  buffer stays padded: the retry, with a sender that would now succeed, is refused by the
  size check (40 > 30) and hands nothing to the sender, and so is every later retry. A
  flush from the state before the failure, with the same sender, sends the strip.
\<close>

theorem failed_flush_retry_refused:
  "SendOrEnqueueStripState
     \<lparr>MaxStripsPerPacket = 2, StreamPixelsPerStrip = 0, FixedSize = 40, NextID = 7,
      commandBuf = [], stripStateBuf = [], stripStateCount = 0\<rparr>
     \<lparr>maxDatagramSize = 30, script = [Some (ErrSend 1)], handed = [], datagrams = []\<rparr>
     \<lparr>StripNumber = 1, Pixels = \<lparr>Layout = BufferRGB, buf = [1, 2, 3]\<rparr>\<rparr> =
   (None,
    \<lparr>MaxStripsPerPacket = 2, StreamPixelsPerStrip = 0, FixedSize = 40, NextID = 7,
     commandBuf = [], stripStateBuf = [0, 0, 0, 0, 1, 1, 2, 3], stripStateCount = 1\<rparr>,
    \<lparr>maxDatagramSize = 30, script = [Some (ErrSend 1)], handed = [], datagrams = []\<rparr>) \<and>
   Flush
     \<lparr>MaxStripsPerPacket = 2, StreamPixelsPerStrip = 0, FixedSize = 40, NextID = 7,
      commandBuf = [], stripStateBuf = [0, 0, 0, 0, 1, 1, 2, 3], stripStateCount = 1\<rparr>
     \<lparr>maxDatagramSize = 30, script = [Some (ErrSend 1)], handed = [], datagrams = []\<rparr> =
   (Some (ErrSend 1),
    \<lparr>MaxStripsPerPacket = 2, StreamPixelsPerStrip = 0, FixedSize = 40, NextID = 7,
     commandBuf = [], stripStateBuf = [0, 0, 0, 7, 1, 1, 2, 3] @ replicate 32 0, stripStateCount = 1\<rparr>,
    \<lparr>maxDatagramSize = 30, script = [], handed = [[0, 0, 0, 7, 1, 1, 2, 3] @ replicate 32 0],
     datagrams = []\<rparr>) \<and>
   Flush
     \<lparr>MaxStripsPerPacket = 2, StreamPixelsPerStrip = 0, FixedSize = 40, NextID = 7,
      commandBuf = [], stripStateBuf = [0, 0, 0, 7, 1, 1, 2, 3] @ replicate 32 0, stripStateCount = 1\<rparr>
     \<lparr>maxDatagramSize = 30, script = [], handed = [], datagrams = []\<rparr> =
   (Some (ErrPacketSize 40 30),
    \<lparr>MaxStripsPerPacket = 2, StreamPixelsPerStrip = 0, FixedSize = 40, NextID = 7,
     commandBuf = [], stripStateBuf = [0, 0, 0, 7, 1, 1, 2, 3] @ replicate 32 0, stripStateCount = 1\<rparr>,
    \<lparr>maxDatagramSize = 30, script = [], handed = [], datagrams = []\<rparr>) \<and>
   Flush
     \<lparr>MaxStripsPerPacket = 2, StreamPixelsPerStrip = 0, FixedSize = 40, NextID = 7,
      commandBuf = [], stripStateBuf = [0, 0, 0, 0, 1, 1, 2, 3], stripStateCount = 1\<rparr>
     \<lparr>maxDatagramSize = 30, script = [], handed = [], datagrams = []\<rparr> =
   (None,
    \<lparr>MaxStripsPerPacket = 2, StreamPixelsPerStrip = 0, FixedSize = 40, NextID = 8,
     commandBuf = [], stripStateBuf = [0, 0, 0, 7], stripStateCount = 0\<rparr>,
    \<lparr>maxDatagramSize = 30, script = [], handed = [[0, 0, 0, 7, 1, 1, 2, 3] @ replicate 32 0],
     datagrams = [[0, 0, 0, 7, 1, 1, 2, 3] @ replicate 32 0]\<rparr>)"
  by (simp add: SendOrEnqueueStripState_def conformStripState_def enqueueWithinLimit_def
      appendStripState_def calculateMaxPacketSize_def MaxDatagramSize_def resetPacketBuffer_def
      Flush_def finalizeAndSendPacket_def SendDatagram_def PutUint32BE_def Let_def)

text \<open>
  What does hold of the discipline. Over any sequence of calls on a stream (sends of
  packets, command sends, enqueued strip states, flushes; errors do not stop the caller),
  \<^verbatim>\<open>NextID\<close> grows by exactly the number of datagrams sent successfully, and those
  datagrams carry consecutive IDs starting at the old \<^verbatim>\<open>NextID\<close>. A flush that fails sends
  nothing and changes nothing of the stream but the strip buffer, where the ID prefix is
  written and zero padding may be appended after the strip bytes, which stay. If
  \<^verbatim>\<open>FixedSize\<close> does not exceed the sender's maximum datagram size, flushing again after the
  failure is the same as flushing from the state before it, so a retry sends the same
  datagram. The example after it runs a stream with \<^verbatim>\<open>FixedSize = 16\<close>: the flush of two
  strips is padded to 16 bytes, fails, and is sent again unchanged by the next flush.
\<close>

lemma NextID_counts_sent_datagrams:
  "(run_ops ps ds ops = (ps', ds') \<longrightarrow> counted ps ds ps' ds') \<and>
   (Flush qs es = (Some e, qs1, es1) \<longrightarrow>
      qs1 = qs\<lparr>stripStateBuf := stripStateBuf qs1\<rparr> \<and>
      datagrams es1 = datagrams es \<and>
      take (length (stripStateBuf qs) - 4) (drop 4 (stripStateBuf qs1)) = drop 4 (stripStateBuf qs) \<and>
      (maxDatagramSize es2 = maxDatagramSize es \<and> FixedSize qs \<le> maxDatagramSize es \<longrightarrow>
         Flush qs1 es2 = Flush qs es2))"
proof (intro conjI impI)
  assume "run_ops ps ds ops = (ps', ds')"
  then show "counted ps ds ps' ds'" by (rule run_ops_counted)
next
  assume f: "Flush qs es = (Some e, qs1, es1)"
  show "qs1 = qs\<lparr>stripStateBuf := stripStateBuf qs1\<rparr>" using Flush_failure(1) [OF f] .
  show "datagrams es1 = datagrams es" using Flush_failure(2) [OF f] .
  show "take (length (stripStateBuf qs) - 4) (drop 4 (stripStateBuf qs1)) = drop 4 (stripStateBuf qs)"
    using Flush_failure(3) [OF f] .
  assume "maxDatagramSize es2 = maxDatagramSize es \<and> FixedSize qs \<le> maxDatagramSize es"
  then show "Flush qs1 es2 = Flush qs es2" using Flush_retry [OF f] by simp
qed

lemma NextID_counts_sent_datagrams_example:
  "run_ops
     \<lparr>MaxStripsPerPacket = 2, StreamPixelsPerStrip = 0, FixedSize = 16, NextID = 0xFACE,
      commandBuf = [], stripStateBuf = [], stripStateCount = 0\<rparr>
     \<lparr>maxDatagramSize = 1024, script = [Some (ErrSend 1)], handed = [], datagrams = []\<rparr>
     [OpEnqueue \<lparr>StripNumber = 2, Pixels = \<lparr>Layout = BufferRGB, buf = [1, 2, 3]\<rparr>\<rparr>,
      OpEnqueue \<lparr>StripNumber = 7, Pixels = \<lparr>Layout = BufferRGB, buf = [4, 5, 6]\<rparr>\<rparr>,
      OpFlush, OpSendCommand ResetCommand] =
   (\<lparr>MaxStripsPerPacket = 2, StreamPixelsPerStrip = 0, FixedSize = 16, NextID = 0xFAD0,
     commandBuf = [0, 0, 0xFA, 0xCF], stripStateBuf = [0, 0, 0xFA, 0xCE], stripStateCount = 0\<rparr>,
    \<lparr>maxDatagramSize = 1024, script = [],
     handed = [[0, 0, 0xFA, 0xCE, 2, 1, 2, 3, 7, 4, 5, 6] @ replicate 4 0, [0, 0, 0xFA, 0xCE, 2, 1, 2, 3, 7, 4, 5, 6] @ replicate 4 0,
               [0, 0, 0xFA, 0xCF] @ CommandMagic @ [1]],
     datagrams = [[0, 0, 0xFA, 0xCE, 2, 1, 2, 3, 7, 4, 5, 6] @ replicate 4 0,
                  [0, 0, 0xFA, 0xCF] @ CommandMagic @ [1]]\<rparr>) \<and>
   counted
     \<lparr>MaxStripsPerPacket = 2, StreamPixelsPerStrip = 0, FixedSize = 16, NextID = 0xFACE,
      commandBuf = [], stripStateBuf = [], stripStateCount = 0\<rparr>
     \<lparr>maxDatagramSize = 1024, script = [Some (ErrSend 1)], handed = [], datagrams = []\<rparr>
     \<lparr>MaxStripsPerPacket = 2, StreamPixelsPerStrip = 0, FixedSize = 16, NextID = 0xFAD0,
      commandBuf = [0, 0, 0xFA, 0xCF], stripStateBuf = [0, 0, 0xFA, 0xCE], stripStateCount = 0\<rparr>
     \<lparr>maxDatagramSize = 1024, script = [],
      handed = [[0, 0, 0xFA, 0xCE, 2, 1, 2, 3, 7, 4, 5, 6] @ replicate 4 0, [0, 0, 0xFA, 0xCE, 2, 1, 2, 3, 7, 4, 5, 6] @ replicate 4 0,
                [0, 0, 0xFA, 0xCF] @ CommandMagic @ [1]],
      datagrams = [[0, 0, 0xFA, 0xCE, 2, 1, 2, 3, 7, 4, 5, 6] @ replicate 4 0,
                   [0, 0, 0xFA, 0xCF] @ CommandMagic @ [1]]\<rparr> \<and>
   Flush
     \<lparr>MaxStripsPerPacket = 2, StreamPixelsPerStrip = 0, FixedSize = 16, NextID = 0xFACE,
      commandBuf = [], stripStateBuf = [0, 0, 0, 0, 2, 1, 2, 3, 7, 4, 5, 6], stripStateCount = 2\<rparr>
     \<lparr>maxDatagramSize = 1024, script = [Some (ErrSend 1)], handed = [], datagrams = []\<rparr> =
   (Some (ErrSend 1),
    \<lparr>MaxStripsPerPacket = 2, StreamPixelsPerStrip = 0, FixedSize = 16, NextID = 0xFACE,
      commandBuf = [], stripStateBuf = [0, 0, 0xFA, 0xCE, 2, 1, 2, 3, 7, 4, 5, 6] @ replicate 4 0, stripStateCount = 2\<rparr>,
    \<lparr>maxDatagramSize = 1024, script = [], handed = [[0, 0, 0xFA, 0xCE, 2, 1, 2, 3, 7, 4, 5, 6] @ replicate 4 0],
     datagrams = []\<rparr>) \<and>
   Flush
     \<lparr>MaxStripsPerPacket = 2, StreamPixelsPerStrip = 0, FixedSize = 16, NextID = 0xFACE,
      commandBuf = [], stripStateBuf = [0, 0, 0xFA, 0xCE, 2, 1, 2, 3, 7, 4, 5, 6] @ replicate 4 0, stripStateCount = 2\<rparr>
     \<lparr>maxDatagramSize = 1024, script = [], handed = [], datagrams = []\<rparr> =
   Flush
     \<lparr>MaxStripsPerPacket = 2, StreamPixelsPerStrip = 0, FixedSize = 16, NextID = 0xFACE,
      commandBuf = [], stripStateBuf = [0, 0, 0, 0, 2, 1, 2, 3, 7, 4, 5, 6], stripStateCount = 2\<rparr>
     \<lparr>maxDatagramSize = 1024, script = [], handed = [], datagrams = []\<rparr>"
proof -
  have run: "run_ops
     \<lparr>MaxStripsPerPacket = 2, StreamPixelsPerStrip = 0, FixedSize = 16, NextID = 0xFACE,
      commandBuf = [], stripStateBuf = [], stripStateCount = 0\<rparr>
     \<lparr>maxDatagramSize = 1024, script = [Some (ErrSend 1)], handed = [], datagrams = []\<rparr>
     [OpEnqueue \<lparr>StripNumber = 2, Pixels = \<lparr>Layout = BufferRGB, buf = [1, 2, 3]\<rparr>\<rparr>,
      OpEnqueue \<lparr>StripNumber = 7, Pixels = \<lparr>Layout = BufferRGB, buf = [4, 5, 6]\<rparr>\<rparr>,
      OpFlush, OpSendCommand ResetCommand] =
   (\<lparr>MaxStripsPerPacket = 2, StreamPixelsPerStrip = 0, FixedSize = 16, NextID = 0xFAD0,
     commandBuf = [0, 0, 0xFA, 0xCF], stripStateBuf = [0, 0, 0xFA, 0xCE], stripStateCount = 0\<rparr>,
    \<lparr>maxDatagramSize = 1024, script = [],
     handed = [[0, 0, 0xFA, 0xCE, 2, 1, 2, 3, 7, 4, 5, 6] @ replicate 4 0, [0, 0, 0xFA, 0xCE, 2, 1, 2, 3, 7, 4, 5, 6] @ replicate 4 0,
               [0, 0, 0xFA, 0xCF] @ CommandMagic @ [1]],
     datagrams = [[0, 0, 0xFA, 0xCE, 2, 1, 2, 3, 7, 4, 5, 6] @ replicate 4 0,
                  [0, 0, 0xFA, 0xCF] @ CommandMagic @ [1]]\<rparr>)"
    by (simp add: SendOrEnqueueStripState_def conformStripState_def enqueueWithinLimit_def
        appendStripState_def calculateMaxPacketSize_def MaxDatagramSize_def resetPacketBuffer_def
        Flush_def finalizeAndSendPacket_def SendDatagram_def PutUint32BE_def Let_def
        SendCommand_def WriteCommand_def CommandMagic_def)
  have fl: "Flush
     \<lparr>MaxStripsPerPacket = 2, StreamPixelsPerStrip = 0, FixedSize = 16, NextID = 0xFACE,
      commandBuf = [], stripStateBuf = [0, 0, 0, 0, 2, 1, 2, 3, 7, 4, 5, 6], stripStateCount = 2\<rparr>
     \<lparr>maxDatagramSize = 1024, script = [Some (ErrSend 1)], handed = [], datagrams = []\<rparr> =
   (Some (ErrSend 1),
    \<lparr>MaxStripsPerPacket = 2, StreamPixelsPerStrip = 0, FixedSize = 16, NextID = 0xFACE,
      commandBuf = [], stripStateBuf = [0, 0, 0xFA, 0xCE, 2, 1, 2, 3, 7, 4, 5, 6] @ replicate 4 0, stripStateCount = 2\<rparr>,
    \<lparr>maxDatagramSize = 1024, script = [], handed = [[0, 0, 0xFA, 0xCE, 2, 1, 2, 3, 7, 4, 5, 6] @ replicate 4 0],
     datagrams = []\<rparr>)"
    by (simp add: MaxDatagramSize_def Flush_def finalizeAndSendPacket_def SendDatagram_def
        PutUint32BE_def Let_def)
  show ?thesis
    using run fl
      NextID_counts_sent_datagrams [THEN conjunct1, THEN mp, OF run]
      NextID_counts_sent_datagrams [THEN conjunct2, THEN mp, OF fl, THEN conjunct2, THEN conjunct2,
        THEN conjunct2, THEN mp,
        of "\<lparr>maxDatagramSize = 1024, script = [], handed = [], datagrams = []\<rparr>"]
    by simp
qed

text \<open>
  C3. The check against the sender's maximum comes before the padding, not after it. With
  \<^verbatim>\<open>FixedSize = 40\<close> and a sender that reports a maximum of 30 bytes, the 21-byte reset
  command passes the check, is padded to 40 bytes, and the 40-byte datagram is handed to
  the sender and sent; the call returns no error.
\<close>

theorem padded_datagram_exceeds_maximum:
  "SendCommand
     \<lparr>MaxStripsPerPacket = 2, StreamPixelsPerStrip = 0, FixedSize = 40, NextID = 7,
      commandBuf = [], stripStateBuf = [], stripStateCount = 0\<rparr>
     \<lparr>maxDatagramSize = 30, script = [], handed = [], datagrams = []\<rparr> ResetCommand =
   (None,
    \<lparr>MaxStripsPerPacket = 2, StreamPixelsPerStrip = 0, FixedSize = 40, NextID = 8,
     commandBuf = [0, 0, 0, 7], stripStateBuf = [], stripStateCount = 0\<rparr>,
    \<lparr>maxDatagramSize = 30, script = [],
     handed = [[0, 0, 0, 7] @ CommandMagic @ [1] @ replicate 19 0],
     datagrams = [[0, 0, 0, 7] @ CommandMagic @ [1] @ replicate 19 0]\<rparr>) \<and>
   int (length ([0, 0, 0, 7] @ CommandMagic @ [1] @ replicate 19 0)) = 40 \<and>
   MaxDatagramSize \<lparr>maxDatagramSize = 30, script = [], handed = [], datagrams = []\<rparr> = 30"
  by (simp add: MaxDatagramSize_def resetPacketBuffer_def finalizeAndSendPacket_def
      SendDatagram_def PutUint32BE_def Let_def SendCommand_def WriteCommand_def CommandMagic_def)

subsection \<open>The discovery block\<close>

lemma finish_char:
  "finish d r = (Inr (d\<lparr>Extra := remainingSlice r\<rparr>), advance r (length (remainingSlice r)))"
  by (simp add: finish_def ReadAll_def advance_def)

lemma struc_Unpack_at_end:
  "remainingSlice r = [] \<Longrightarrow> 0 < n \<Longrightarrow> struc_Unpack r (n # ns) = (Inl EOF, r)"
  by (simp add: io_ReadFull_char)

lemma readExt117_full:
  assumes "remainingSlice r = writeExt117 x @ extra" and "\<not> sw < 117"
  shows "fst (readExt117 d r sw) =
     Inr (d\<lparr>PusherFlags := PusherFlags x, Segments := Segments x, PowerDomain := PowerDomain x,
             Extra := extra\<rparr>)"
proof -
  let ?fs = "[[0x00, 0x00], PutUint32LE (PusherFlags x), PutUint32LE (Segments x),
              PutUint32LE (PowerDomain x)]"
  have "struc_Unpack r [2, 4, 4, 4] = (Inr ?fs, advance r (length (concat ?fs)))"
    using assms(1) by (intro struc_Unpack_fields [where rest = extra]) (simp_all add: writeExt117_def)
  then show ?thesis
    using assms
    by (simp add: readExt117_def finish_char Uint32LE_Put writeExt117_def del: struc_Unpack.simps)
qed

lemma readExt117_absent:
  "remainingSlice r = [] \<Longrightarrow> fst (readExt117 d r sw) = Inr (d\<lparr>Extra := []\<rparr>)"
  using struc_Unpack_at_end [of r 2 "[4, 4, 4]"]
  by (simp add: readExt117_def finish_char del: struc_Unpack.simps)

lemma length_writeExt109: "length (writeExt109 x) = max 8 (length (DevStripFlags x))"
  by (simp add: writeExt109_def)

lemma numStripFlags_eq:
  "unat (if (8 :: byte) < a then a else 8) = max 8 (unat a)"
  by (simp add: word_less_nat_alt max_def)

lemma readExt109_full:
  assumes "remainingSlice r = writeExt109 x @ rest" and "\<not> sw < 109"
    and "length (DevStripFlags x) = unat (StripsAttached d)"
    and "length (DevStripFlags d) = unat (StripsAttached d)"
  shows "readExt109 d r sw =
     readExt117 (d\<lparr>DevStripFlags := DevStripFlags x\<rparr>) (advance r (length (writeExt109 x))) sw"
proof -
  let ?n = "max 8 (unat (StripsAttached d))"
  have n: "?n = length (writeExt109 x)" using assms(3) by (simp add: length_writeExt109)
  have rd: "dataio_ReadFull r ?n = (writeExt109 x, None, advance r ?n)"
    using assms(1) n by (simp add: dataio_ReadFull_char)
  have tk: "take (length (DevStripFlags d)) (writeExt109 x) = DevStripFlags x"
    using assms(3,4) by (simp add: writeExt109_def)
  show ?thesis
    using assms(2) rd tk n by (simp add: readExt109_def numStripFlags_eq)
qed

lemma readExt109_absent:
  "remainingSlice r = [] \<Longrightarrow> fst (readExt109 d r sw) = Inr (d\<lparr>Extra := []\<rparr>)"
  by (simp add: readExt109_def finish_char dataio_ReadFull_char numStripFlags_eq Let_def)

lemma readExt101_full:
  assumes "remainingSlice r = writeExt101 x @ rest" and "\<not> sw < 101"
  shows "readExt101 d r sw = readExt109 (d\<lparr>MyPort := MyPort x\<rparr>) (advance r 4) sw"
proof -
  let ?fs = "[PutUint16LE (MyPort x), [0x00, 0x00]]"
  have "struc_Unpack r [2, 2] = (Inr ?fs, advance r (length (concat ?fs)))"
    using assms(1) by (intro struc_Unpack_fields [where rest = rest]) (simp_all add: writeExt101_def)
  then show ?thesis
    using assms(2) by (simp add: readExt101_def Uint16LE_Put del: struc_Unpack.simps)
qed

lemma readExt101_absent:
  "remainingSlice r = [] \<Longrightarrow> fst (readExt101 d r sw) = Inr (d\<lparr>Extra := []\<rparr>)"
  using struc_Unpack_at_end [of r 2 "[2]"]
  by (simp add: readExt101_def finish_char del: struc_Unpack.simps)

lemma length_write [simp]:
  "length (writeDeviceHeader d) = 28" "length (writeExt101 d) = 4" "length (writeExt117 d) = 14"
  by (simp_all add: writeDeviceHeader_def writeExt101_def writeExt117_def)

lemma ReadDevice_header:
  "ReadDevice (newR (writeDeviceHeader x @ rest)) sw =
     readExt101
       (x\<lparr>MyPort := DefaultPort, DevStripFlags := replicate (unat (StripsAttached x)) 0,
          PusherFlags := 0, Segments := 0, PowerDomain := 0, Extra := []\<rparr>)
       (advance (newR (writeDeviceHeader x @ rest)) 28) sw"
proof -
  let ?fs = "[[StripsAttached x], [DevMaxStripsPerPacket x], PutUint16LE (DevPixelsPerStrip x),
     PutUint32LE (UpdatePeriod x), PutUint32LE (PowerTotal x), PutUint32LE (DeltaSequence x),
     PutUint32LE (ControllerOrdinal x), PutUint32LE (GroupOrdinal x),
     PutUint16LE (ArtNetUniverse x), PutUint16LE (ArtNetChannel x)]"
  let ?r = "newR (writeDeviceHeader x @ rest)"
  have "struc_Unpack ?r [1, 1, 2, 4, 4, 4, 4, 4, 2, 2] = (Inr ?fs, advance ?r (length (concat ?fs)))"
    by (intro struc_Unpack_fields [where rest = rest]) (simp_all add: writeDeviceHeader_def)
  moreover have eq: "\<lparr>StripsAttached = StripsAttached x,
         DevMaxStripsPerPacket = DevMaxStripsPerPacket x,
         DevPixelsPerStrip = DevPixelsPerStrip x,
         UpdatePeriod = UpdatePeriod x, PowerTotal = PowerTotal x,
         DeltaSequence = DeltaSequence x,
         ControllerOrdinal = ControllerOrdinal x,
         GroupOrdinal = GroupOrdinal x, ArtNetUniverse = ArtNetUniverse x,
         ArtNetChannel = ArtNetChannel x, MyPort = DefaultPort,
         DevStripFlags = replicate (unat (StripsAttached x)) 0,
         PusherFlags = 0, Segments = 0, PowerDomain = 0, Extra = []\<rparr> =
      x\<lparr>MyPort := DefaultPort, DevStripFlags := replicate (unat (StripsAttached x)) 0,
          PusherFlags := 0, Segments := 0, PowerDomain := 0, Extra := []\<rparr>"
    by (cases x) simp
  ultimately show ?thesis
    by (simp add: ReadDevice_def Uint16LE_Put Uint32LE_Put eq del: struc_Unpack.simps)
qed


text \<open>
  Round trip of the discovery block. For a device whose strip-flag list has
  \<^verbatim>\<open>StripsAttached\<close> entries, parsing what \<^verbatim>\<open>Write\<close> produced at revision \<open>sw\<close>, followed by
  any extra bytes, gives the device back (the extensions that \<open>sw\<close> lacks at their
  defaults, the extra bytes in \<^verbatim>\<open>Extra\<close>), and writing the parsed device reproduces the
  bytes up to the last extension.
\<close>

lemma ReadDevice_Write:
  assumes "length (DevStripFlags d) = unat (StripsAttached d)"
  shows "fst (ReadDevice (newR (Write d sw @ extra)) sw) = Inr ((known_at sw d)\<lparr>Extra := extra\<rparr>)"
    and "Write ((known_at sw d)\<lparr>Extra := extra\<rparr>) sw = Write d sw"
proof -
  let ?d0 = "d\<lparr>MyPort := DefaultPort, DevStripFlags := replicate (unat (StripsAttached d)) 0,
          PusherFlags := 0, Segments := 0, PowerDomain := 0, Extra := []\<rparr>"
  show "Write ((known_at sw d)\<lparr>Extra := extra\<rparr>) sw = Write d sw"
    by (simp add: Write_def known_at_def writeDeviceHeader_def writeExt101_def writeExt109_def
        writeExt117_def)
  have hd: "ReadDevice (newR (writeDeviceHeader d @ rest)) sw =
      readExt101 ?d0 (advance (newR (writeDeviceHeader d @ rest)) 28) sw" for rest
    by (rule ReadDevice_header)
  have l28: "length (writeDeviceHeader d) = 28" by (simp add: writeDeviceHeader_def)
  have rem28: "remainingSlice (advance (newR (writeDeviceHeader d @ rest)) 28) = rest" for rest
    using l28 by simp
  consider (a) "sw < 101" | (b) "\<not> sw < 101" "sw < 109" | (c) "\<not> sw < 101" "\<not> sw < 109" "sw < 117"
    | (e) "\<not> sw < 101" "\<not> sw < 109" "\<not> sw < 117" by blast
  then show "fst (ReadDevice (newR (Write d sw @ extra)) sw) = Inr ((known_at sw d)\<lparr>Extra := extra\<rparr>)"
  proof cases
    case a
    then have lt: "sw < 109" "sw < 117" by (auto simp: word_less_nat_alt)
    show ?thesis
      using a lt hd [of extra] rem28 [of extra]
      by (cases d) (simp add: Write_def readExt101_def finish_char known_at_def)
  next
    case b
    then have lt: "sw < 117" by (auto simp: word_less_nat_alt)
    let ?r = "advance (newR (writeDeviceHeader d @ writeExt101 d @ extra)) 28"
    have "readExt101 ?d0 ?r sw = readExt109 (?d0\<lparr>MyPort := MyPort d\<rparr>) (advance ?r 4) sw"
      using readExt101_full [of ?r d extra sw ?d0] rem28 [of "writeExt101 d @ extra"] b by simp
    moreover have "remainingSlice (advance ?r 4) = extra"
      using l28 by (simp add: writeExt101_def)
    ultimately show ?thesis
      using b lt hd [of "writeExt101 d @ extra"]
      by (cases d) (simp add: Write_def readExt109_def finish_char known_at_def)
  next
    case c
    let ?r = "advance (newR (writeDeviceHeader d @ writeExt101 d @ writeExt109 d @ extra)) 28"
    let ?d1 = "?d0\<lparr>MyPort := MyPort d\<rparr>"
    have s1: "readExt101 ?d0 ?r sw = readExt109 ?d1 (advance ?r 4) sw"
      using readExt101_full [of ?r d "writeExt109 d @ extra" sw ?d0]
        rem28 [of "writeExt101 d @ writeExt109 d @ extra"] c by simp
    have rem2: "remainingSlice (advance ?r 4) = writeExt109 d @ extra"
      using l28 by (simp add: writeExt101_def)
    have s2: "readExt109 ?d1 (advance ?r 4) sw =
        readExt117 (?d1\<lparr>DevStripFlags := DevStripFlags d\<rparr>)
          (advance (advance ?r 4) (length (writeExt109 d))) sw"
      using readExt109_full [OF rem2 c(2), of ?d1] assms by simp
    have rem3: "remainingSlice (advance (advance ?r 4) (length (writeExt109 d))) = extra"
      using rem2 by simp
    show ?thesis
      using c hd [of "writeExt101 d @ writeExt109 d @ extra"] s1 s2 rem3
      by (cases d) (simp add: Write_def readExt117_def finish_char known_at_def)
  next
    case e
    let ?r = "advance (newR (writeDeviceHeader d @ writeExt101 d @ writeExt109 d @
                writeExt117 d @ extra)) 28"
    let ?d1 = "?d0\<lparr>MyPort := MyPort d\<rparr>"
    let ?d2 = "?d1\<lparr>DevStripFlags := DevStripFlags d\<rparr>"
    have s1: "readExt101 ?d0 ?r sw = readExt109 ?d1 (advance ?r 4) sw"
      using readExt101_full [of ?r d "writeExt109 d @ writeExt117 d @ extra" sw ?d0]
        rem28 [of "writeExt101 d @ writeExt109 d @ writeExt117 d @ extra"] e by simp
    have rem2: "remainingSlice (advance ?r 4) = writeExt109 d @ writeExt117 d @ extra"
      using l28 by (simp add: writeExt101_def)
    have s2: "readExt109 ?d1 (advance ?r 4) sw =
        readExt117 ?d2 (advance (advance ?r 4) (length (writeExt109 d))) sw"
      using readExt109_full [OF rem2 e(2), of ?d1] assms by simp
    have rem3: "remainingSlice (advance (advance ?r 4) (length (writeExt109 d))) =
        writeExt117 d @ extra"
      using rem2 by simp
    have s3: "fst (readExt117 ?d2 (advance (advance ?r 4) (length (writeExt109 d))) sw) =
        Inr (?d2\<lparr>PusherFlags := PusherFlags d, Segments := Segments d,
                 PowerDomain := PowerDomain d, Extra := extra\<rparr>)"
      using readExt117_full [OF rem3 e(3)] .
    show ?thesis
      using e hd [of "writeExt101 d @ writeExt109 d @ writeExt117 d @ extra"] s1 s2 s3
      by (cases d) (simp add: Write_def known_at_def)
  qed
qed


text \<open>
  A stream that ends cleanly before an optional extension: the bytes were written at
  revision \<open>swb\<close> and are read at a revision \<open>sw\<close> that is not older. The parse succeeds,
  and the extensions that \<open>swb\<close> lacks are at their defaults: port 9798, one zero strip
  flag per attached strip, pusher flags 0.
\<close>

lemma ReadDevice_clean_end:
  assumes "length (DevStripFlags d) = unat (StripsAttached d)" and "swb \<le> sw"
  shows "fst (ReadDevice (newR (Write d swb)) sw) = Inr ((known_at swb d)\<lparr>Extra := []\<rparr>)"
proof -
  let ?d0 = "d\<lparr>MyPort := DefaultPort, DevStripFlags := replicate (unat (StripsAttached d)) 0,
          PusherFlags := 0, Segments := 0, PowerDomain := 0, Extra := []\<rparr>"
  have hd: "ReadDevice (newR (writeDeviceHeader d @ rest)) sw =
      readExt101 ?d0 (advance (newR (writeDeviceHeader d @ rest)) 28) sw" for rest
    by (rule ReadDevice_header)
  have rem28: "remainingSlice (advance (newR (writeDeviceHeader d @ rest)) 28) = rest" for rest
    by simp
  consider (a) "swb < 101" | (b) "\<not> swb < 101" "swb < 109"
    | (c) "\<not> swb < 101" "\<not> swb < 109" "swb < 117"
    | (e) "\<not> swb < 101" "\<not> swb < 109" "\<not> swb < 117" by blast
  then show ?thesis
  proof cases
    case a
    then have lt: "swb < 109" "swb < 117" by (auto simp: word_less_nat_alt)
    show ?thesis
      using a lt hd [of "[]"] readExt101_absent [OF rem28 [of "[]"], of ?d0 sw]
      by (cases d) (simp add: Write_def known_at_def)
  next
    case b
    then have lt: "swb < 117" and ge: "\<not> sw < 101"
      using assms(2) by (auto simp: word_less_nat_alt word_le_nat_alt)
    let ?r = "advance (newR (writeDeviceHeader d @ writeExt101 d @ [])) 28"
    let ?d1 = "?d0\<lparr>MyPort := MyPort d\<rparr>"
    have s1: "readExt101 ?d0 ?r sw = readExt109 ?d1 (advance ?r 4) sw"
      using readExt101_full [of ?r d "[]" sw ?d0] rem28 [of "writeExt101 d @ []"] ge by simp
    have rem2: "remainingSlice (advance ?r 4) = []" by simp
    show ?thesis
      using b lt hd [of "writeExt101 d @ []"] s1 readExt109_absent [OF rem2, of ?d1 sw]
      by (cases d) (simp add: Write_def known_at_def)
  next
    case c
    then have ge: "\<not> sw < 101" "\<not> sw < 109"
      using assms(2) by (auto simp: word_less_nat_alt word_le_nat_alt)
    let ?r = "advance (newR (writeDeviceHeader d @ writeExt101 d @ writeExt109 d @ [])) 28"
    let ?d1 = "?d0\<lparr>MyPort := MyPort d\<rparr>"
    let ?d2 = "?d1\<lparr>DevStripFlags := DevStripFlags d\<rparr>"
    have s1: "readExt101 ?d0 ?r sw = readExt109 ?d1 (advance ?r 4) sw"
      using readExt101_full [of ?r d "writeExt109 d @ []" sw ?d0]
        rem28 [of "writeExt101 d @ writeExt109 d @ []"] ge by simp
    have rem2: "remainingSlice (advance ?r 4) = writeExt109 d @ []" by simp
    have s2: "readExt109 ?d1 (advance ?r 4) sw =
        readExt117 ?d2 (advance (advance ?r 4) (length (writeExt109 d))) sw"
      using readExt109_full [OF rem2 ge(2), of ?d1] assms(1) by simp
    have rem3: "remainingSlice (advance (advance ?r 4) (length (writeExt109 d))) = []"
      using rem2 by simp
    show ?thesis
      using c hd [of "writeExt101 d @ writeExt109 d @ []"] s1 s2
        readExt117_absent [OF rem3, of ?d2 sw]
      by (cases d) (simp add: Write_def known_at_def)
  next
    case e
    then have ge: "\<not> sw < 101" "\<not> sw < 109" "\<not> sw < 117"
      using assms(2) by (auto simp: word_less_nat_alt word_le_nat_alt)
    have w: "Write d swb = Write d sw" using e ge by (simp add: Write_def)
    have k: "known_at swb d = known_at sw d" using e ge by (simp add: known_at_def)
    show ?thesis
      using ReadDevice_Write(1) [OF assms(1), of sw "[]"] w k by simp
  qed
qed

text \<open>
  C1. A stream that ends in the middle of an extension is not always refused. At revision
  109, a 28-byte base block for one attached strip, the complete four-byte 101 extension
  and only three of the eight strip-flag bytes: \<^verbatim>\<open>dataio.ReadFull\<close> reports the short read
  as \<^verbatim>\<open>io.EOF\<close>, \<^verbatim>\<open>ReadDevice\<close> takes \<^verbatim>\<open>io.EOF\<close> for an absent extension, and the parse
  succeeds with a zero strip flag and an empty \<^verbatim>\<open>Extra\<close>; the flag byte \<open>0x0F\<close> is lost.
\<close>

theorem truncated_strip_flags_accepted:
  "ReadDevice
     (newR ([0x01, 0x02, 0x03, 0x00, 0x13, 0x12, 0x11, 0x10, 0x23, 0x22, 0x21, 0x20,
             0x33, 0x32, 0x31, 0x30, 0x43, 0x42, 0x41, 0x40, 0x53, 0x52, 0x51, 0x50,
             0x61, 0x60, 0x71, 0x70] @ [0xCE, 0xFA, 0x00, 0x00] @ [0x0F, 0x00, 0x00])) 109 =
   (Inr \<lparr>StripsAttached = 1, DevMaxStripsPerPacket = 2, DevPixelsPerStrip = 3,
         UpdatePeriod = 0x10111213, PowerTotal = 0x20212223, DeltaSequence = 0x30313233,
         ControllerOrdinal = 0x40414243, GroupOrdinal = 0x50515253,
         ArtNetUniverse = 0x6061, ArtNetChannel = 0x7071, MyPort = 0xFACE,
         DevStripFlags = [0], PusherFlags = 0, Segments = 0, PowerDomain = 0, Extra = []\<rparr>,
    \<lparr>Buffer = [0x01, 0x02, 0x03, 0x00, 0x13, 0x12, 0x11, 0x10, 0x23, 0x22, 0x21, 0x20,
             0x33, 0x32, 0x31, 0x30, 0x43, 0x42, 0x41, 0x40, 0x53, 0x52, 0x51, 0x50,
             0x61, 0x60, 0x71, 0x70] @ [0xCE, 0xFA, 0x00, 0x00] @ [0x0F, 0x00, 0x00],
     AlwaysCopy = False, pos = 35\<rparr>)"
  by (simp add: ReadDevice_def readExt101_def readExt109_def io_ReadFull_char
      dataio_ReadFull_char finish_char newR_def remainingSlice_def advance_def
      Uint16LE_def Uint32LE_def DefaultPort_def Let_def)

text \<open>
  The packer-decoded extensions behave alike where the data ends between two of their
  fields: at revision 101, the base block and only the two port bytes parse successfully,
  with the default port.
\<close>

lemma truncated_port_extension_accepted:
  "fst (ReadDevice
     (newR ([0x01, 0x02, 0x03, 0x00, 0x13, 0x12, 0x11, 0x10, 0x23, 0x22, 0x21, 0x20,
             0x33, 0x32, 0x31, 0x30, 0x43, 0x42, 0x41, 0x40, 0x53, 0x52, 0x51, 0x50,
             0x61, 0x60, 0x71, 0x70] @ [0xCE, 0xFA])) 101) =
   Inr \<lparr>StripsAttached = 1, DevMaxStripsPerPacket = 2, DevPixelsPerStrip = 3,
         UpdatePeriod = 0x10111213, PowerTotal = 0x20212223, DeltaSequence = 0x30313233,
         ControllerOrdinal = 0x40414243, GroupOrdinal = 0x50515253,
         ArtNetUniverse = 0x6061, ArtNetChannel = 0x7071, MyPort = 9798,
         DevStripFlags = [0], PusherFlags = 0, Segments = 0, PowerDomain = 0, Extra = []\<rparr>"
  by (simp add: ReadDevice_def readExt101_def readExt109_def io_ReadFull_char
      dataio_ReadFull_char finish_char newR_def remainingSlice_def advance_def
      Uint16LE_def Uint32LE_def DefaultPort_def Let_def)

text \<open>A truncation inside a field of a packer-decoded extension is refused.\<close>

lemma truncated_port_field_refused:
  "fst (ReadDevice
     (newR ([0x01, 0x02, 0x03, 0x00, 0x13, 0x12, 0x11, 0x10, 0x23, 0x22, 0x21, 0x20,
             0x33, 0x32, 0x31, 0x30, 0x43, 0x42, 0x41, 0x40, 0x53, 0x52, 0x51, 0x50,
             0x61, 0x60, 0x71, 0x70] @ [0xCE])) 101) =
   Inl (Wrap ''reading D101 extension header'' ErrUnexpectedEOF)"
  by (simp add: ReadDevice_def readExt101_def readExt109_def io_ReadFull_char
      dataio_ReadFull_char finish_char newR_def remainingSlice_def advance_def
      Uint16LE_def Uint32LE_def DefaultPort_def Let_def)

subsection \<open>The device registry and the router\<close>

lemmas registry_defs =
  Add_def checkDeviceRegistration_def unregisterDoneEntriesLocked_def updateOrdinalLocked_def
  unregisterEntryLocked_def removeFromGroupMapLocked_def removeFromOrdinalMapLocked_def
  set_add_def IsDone_def

lemma Add_first:
  assumes "\<not> dDone (W a)"
  shows "devices (Add emptyRegistry W a) = [(dID (W a), 0)]"
    and "nextEntry (Add emptyRegistry W a) = 1"
    and "ordinalMap (Add emptyRegistry W a) = (\<lambda>_. [])(dOrdinal (W a) := [0])"
    and "groupMap (Add emptyRegistry W a) = (\<lambda>_. [])(Group (dOrdinal (W a)) := [0])"
    and "entry (Add emptyRegistry W a) 0 =
           \<lparr>device = a, deviceID = dID (W a), registeredGroup = Group (dOrdinal (W a)),
            registeredOrdinal = dOrdinal (W a)\<rparr>"
  using assms by (simp_all add: registry_defs emptyRegistry_def Let_def)

lemma Add_second:
  assumes "\<not> dDone (W a)" "\<not> dDone (W b)" "dID (W a) \<noteq> dID (W b)"
    and "dOrdinal (W a) = o'" "dOrdinal (W b) = o'"
  shows "devices (Add (Add emptyRegistry W a) W b) = [(dID (W a), 0), (dID (W b), 1)]"
    and "ordinalMap (Add (Add emptyRegistry W a) W b) o' = [0, 1]"
    and "entry (Add (Add emptyRegistry W a) W b) 0 =
           \<lparr>device = a, deviceID = dID (W a), registeredGroup = Group o', registeredOrdinal = o'\<rparr>"
    and "entry (Add (Add emptyRegistry W a) W b) (Suc 0) =
           \<lparr>device = b, deviceID = dID (W b), registeredGroup = Group o', registeredOrdinal = o'\<rparr>"
proof -
  let ?r = "Add emptyRegistry W a"
  note f = Add_first [of W a, OF assms(1)]
  have nf: "\<not> checkDeviceRegistration ?r W (dID (W b))"
    using assms by (simp add: checkDeviceRegistration_def f)
  have u: "unregisterDoneEntriesLocked ?r W = ?r"
    using assms by (simp add: unregisterDoneEntriesLocked_def f IsDone_def)
  have m: "map_of (devices ?r) (dID (W b)) = None"
    using assms by (simp add: f)
  note A = Add_def [of ?r W b, unfolded Let_def if_not_P [OF nf] u m option.case]
  show "devices (Add ?r W b) = [(dID (W a), 0), (dID (W b), 1)]"
    unfolding A by (simp add: updateOrdinalLocked_def Let_def f)
  show "ordinalMap (Add ?r W b) o' = [0, 1]"
    unfolding A using assms by (simp add: updateOrdinalLocked_def Let_def f set_add_def)
  show "entry (Add ?r W b) 0 =
           \<lparr>device = a, deviceID = dID (W a), registeredGroup = Group o', registeredOrdinal = o'\<rparr>"
    unfolding A using assms by (simp add: updateOrdinalLocked_def Let_def f)
  show "entry (Add ?r W b) (Suc 0) =
           \<lparr>device = b, deviceID = dID (W b), registeredGroup = Group o', registeredOrdinal = o'\<rparr>"
    unfolding A using assms by (simp add: updateOrdinalLocked_def Let_def f)
qed

lemma GetUniqueOrdinal_char:
  "GetUniqueOrdinal reg W o' =
     (if \<exists>e. ordinalMap reg o' = [e] \<and> \<not> IsDone W (device (entry reg e))
      then Some (device (entry reg (hd (ordinalMap reg o')))) else None)"
proof (cases "ordinalMap reg o'")
  case Nil
  then show ?thesis by (simp add: GetUniqueOrdinal_def)
next
  case (Cons e es)
  then show ?thesis by (cases es) (simp_all add: GetUniqueOrdinal_def)
qed

lemma distinct_singleton: "distinct ys \<Longrightarrow> set ys = {k} \<Longrightarrow> ys = [k]"
proof (cases ys)
  case Nil
  assume "set ys = {k}" with Nil show ?thesis by simp
next
  case (Cons y ys')
  assume d: "distinct ys" and s: "set ys = {k}"
  from s Cons have y: "y = k" by auto
  from d Cons y have "k \<notin> set ys'" by simp
  moreover from s Cons have "set ys' \<subseteq> {k}" by auto
  ultimately have "ys' = []" by (cases ys') auto
  with Cons y show ?thesis by simp
qed

lemma unregisterEntryLocked_ordinalMap:
  assumes "map_of (devices reg) (deviceID (entry reg e)) = Some e"
  shows "ordinalMap (unregisterEntryLocked reg e) (registeredOrdinal (entry reg e)) =
           removeAll e (ordinalMap reg (registeredOrdinal (entry reg e)))"
    and "e' \<noteq> e \<Longrightarrow> entry (unregisterEntryLocked reg e) e' = entry reg e'"
    and "devices (unregisterEntryLocked reg e) =
           filter (\<lambda>(k, _). k \<noteq> deviceID (entry reg e)) (devices reg)"
  using assms
  by (simp_all add: unregisterEntryLocked_def removeFromGroupMapLocked_def
      removeFromOrdinalMapLocked_def Let_def)

lemma survivor_is_unique:
  assumes s: "set (ordinalMap reg o') = {gone, kept}" and d: "distinct (ordinalMap reg o')"
    and ne: "gone \<noteq> kept"
    and ro: "registeredOrdinal (entry reg gone) = o'"
    and m: "map_of (devices reg) (deviceID (entry reg gone)) = Some gone"
    and nd: "\<not> IsDone W (device (entry reg kept))"
  shows "GetUniqueOrdinal (unregisterEntry reg gone) W o' = Some (device (entry reg kept))"
proof -
  let ?r = "unregisterEntryLocked reg gone"
  have "ordinalMap ?r o' = removeAll gone (ordinalMap reg o')"
    using unregisterEntryLocked_ordinalMap(1) [OF m] ro by simp
  moreover have "distinct (removeAll gone (ordinalMap reg o'))"
    using d by (simp add: distinct_removeAll)
  moreover have "set (removeAll gone (ordinalMap reg o')) = {kept}"
    using s ne by auto
  ultimately have om: "ordinalMap ?r o' = [kept]"
    using distinct_singleton by metis
  have en: "entry ?r kept = entry reg kept"
    using unregisterEntryLocked_ordinalMap(2) [OF m, of kept] ne by simp
  show ?thesis
    using nd by (simp add: unregisterEntry_def GetUniqueOrdinal_def om en)
qed

lemma Route_char:
  "Route reg W deliver ordinal id' pkt =
     (if IsValid ordinal \<and>
         (\<exists>e. ordinalMap reg ordinal = [e] \<and> \<not> IsDone W (device (entry reg e)))
      then deliver (device (entry reg (hd (ordinalMap reg ordinal)))) pkt
      else case map_of (devices reg) id' of
             None \<Rightarrow> Some ErrNoRoute
           | Some e \<Rightarrow>
               if IsDone W (device (entry reg e)) then Some ErrNoRoute
               else deliver (device (entry reg e)) pkt)"
proof (cases "IsValid ordinal \<and>
         (\<exists>e. ordinalMap reg ordinal = [e] \<and> \<not> IsDone W (device (entry reg e)))")
  case True
  then have "GetUniqueOrdinal reg W ordinal = Some (device (entry reg (hd (ordinalMap reg ordinal))))"
    by (simp only: GetUniqueOrdinal_char [of reg W ordinal] if_True)
  with True show ?thesis
    by (simp only: Route_def routeTarget_def Let_def if_True) simp
next
  case False
  then have "(if IsValid ordinal then GetUniqueOrdinal reg W ordinal else None) = None"
    by (cases "IsValid ordinal") (simp_all add: GetUniqueOrdinal_char [of reg W ordinal])
  then show ?thesis
    unfolding Route_def routeTarget_def Let_def if_not_P [OF False]
    by (simp add: Get_def split: option.splits)
qed

lemma two_share_general:
  "2 \<le> length (ordinalMap reg o') \<Longrightarrow> GetUniqueOrdinal reg W o' = None"
  by (simp add: GetUniqueOrdinal_def)

lemma two_added_share:
  assumes "\<not> dDone (W a)" "\<not> dDone (W b)" "dID (W a) \<noteq> dID (W b)"
    and "dOrdinal (W a) = o'" "dOrdinal (W b) = o'"
  shows "GetUniqueOrdinal (Add (Add emptyRegistry W a) W b) W o' = None"
    and "GetUniqueOrdinal (unregisterEntry (Add (Add emptyRegistry W a) W b) 0) (markDone W a) o'
           = Some b"
proof -
  let ?r = "Add (Add emptyRegistry W a) W b"
  note s = Add_second [of W a b o', OF assms]
  show "GetUniqueOrdinal ?r W o' = None"
    by (simp add: GetUniqueOrdinal_def s)
  have ab: "a \<noteq> b" using assms(3) by auto
  have "GetUniqueOrdinal (unregisterEntry ?r 0) (markDone W a) o' = Some (device (entry ?r 1))"
    using assms ab
    by (intro survivor_is_unique [where kept = 1]) (simp_all add: s IsDone_def markDone_def)
  then show "GetUniqueOrdinal (unregisterEntry ?r 0) (markDone W a) o' = Some b"
    by (simp add: s)
qed


lemma testRegistry_facts:
  "devices testRegistry = [(''d0'', 0), (''d1'', 1)]"
  "ordinalMap testRegistry ord510 = [0, 1]"
  "entry testRegistry 0 =
     \<lparr>device = dev0, deviceID = ''d0'', registeredGroup = 5, registeredOrdinal = ord510\<rparr>"
  "entry testRegistry (Suc 0) =
     \<lparr>device = dev1, deviceID = ''d1'', registeredGroup = 5, registeredOrdinal = ord510\<rparr>"
proof -
  have w: "testWorld dev0 = \<lparr>dID = ''d0'', dOrdinal = ord510, dDone = False\<rparr>"
    "testWorld dev1 = \<lparr>dID = ''d1'', dOrdinal = ord510, dDone = False\<rparr>"
    by (simp_all add: testWorld_def dev0_def dev1_def)
  have g: "Group ord510 = 5" by (simp add: ord510_def)
  have h: "\<not> dDone (testWorld dev0)" "\<not> dDone (testWorld dev1)"
    "dID (testWorld dev0) \<noteq> dID (testWorld dev1)"
    "dOrdinal (testWorld dev0) = ord510" "dOrdinal (testWorld dev1) = ord510"
    by (simp_all add: w)
  note s = Add_second [of testWorld dev0 dev1 ord510, OF h]
  show "devices testRegistry = [(''d0'', 0), (''d1'', 1)]"
    using s(1) by (simp add: testRegistry_def w)
  show "ordinalMap testRegistry ord510 = [0, 1]"
    using s(2) by (simp add: testRegistry_def)
  show "entry testRegistry 0 =
     \<lparr>device = dev0, deviceID = ''d0'', registeredGroup = 5, registeredOrdinal = ord510\<rparr>"
    using s(3) by (simp add: testRegistry_def w g)
  show "entry testRegistry (Suc 0) =
     \<lparr>device = dev1, deviceID = ''d1'', registeredGroup = 5, registeredOrdinal = ord510\<rparr>"
    using s(4) by (simp add: testRegistry_def w g)
qed

lemma testRegistry_unregistered:
  "devices (unregisterEntry testRegistry 0) = [(''d1'', 1)]"
  "ordinalMap (unregisterEntry testRegistry 0) ord510 = [1]"
  "entry (unregisterEntry testRegistry 0) (Suc 0) =
     \<lparr>device = dev1, deviceID = ''d1'', registeredGroup = 5, registeredOrdinal = ord510\<rparr>"
proof -
  have m: "map_of (devices testRegistry) (deviceID (entry testRegistry 0)) = Some 0"
    by (simp add: testRegistry_facts)
  note u = unregisterEntryLocked_ordinalMap [OF m]
  show "devices (unregisterEntry testRegistry 0) = [(''d1'', 1)]"
    unfolding unregisterEntry_def u(3) by (simp add: testRegistry_facts)
  show "ordinalMap (unregisterEntry testRegistry 0) ord510 = [1]"
    using u(1) by (simp add: unregisterEntry_def testRegistry_facts)
  show "entry (unregisterEntry testRegistry 0) (Suc 0) =
     \<lparr>device = dev1, deviceID = ''d1'', registeredGroup = 5, registeredOrdinal = ord510\<rparr>"
    using u(2) [of "Suc 0"] by (simp add: unregisterEntry_def testRegistry_facts)
qed

lemma markDone_test:
  "IsDone (markDone testWorld dev0) dev0" "\<not> IsDone (markDone testWorld dev0) dev1"
  "\<not> IsDone testWorld dev0" "\<not> IsDone testWorld dev1"
  by (simp_all add: IsDone_def markDone_def testWorld_def dev0_def dev1_def)

text \<open>
  \<^bold>\<open>C8\<close>, as stated, fails. In \<open>testRegistry\<close> the two devices \<open>dev0\<close> and \<open>dev1\<close> are
  registered with the ordinal (5, 10). Once \<open>dev0\<close> is done and its entry is not yet
  unregistered, exactly one non-done device, \<open>dev1\<close>, is registered with the valid
  ordinal (5, 10), and \<^verbatim>\<open>Route\<close> with that ordinal and an unregistered ID does not choose it:
  it returns \<^verbatim>\<open>ErrNoRoute\<close>.
\<close>

theorem live_device_at_ordinal_not_chosen:
  "IsValid ord510 \<and>
   filter (\<lambda>e. \<not> IsDone (markDone testWorld dev0) (device (entry testRegistry e)))
     (ordinalMap testRegistry ord510) = [1] \<and>
   device (entry testRegistry 1) = dev1 \<and>
   map_of (devices testRegistry) ''nonexist'' = None \<and>
   GetUniqueOrdinal testRegistry (markDone testWorld dev0) ord510 = None \<and>
   Route testRegistry (markDone testWorld dev0) (\<lambda>_ _. None) ord510 ''nonexist''
     \<lparr>ID = 0, Command = None, StripStates = []\<rparr> = Some ErrNoRoute"
  by (simp add: Route_char GetUniqueOrdinal_char testRegistry_facts markDone_test)
    (simp add: IsValid_def ord510_def)

text \<open>
  \<^bold>\<open>C8\<close>, amended. \<^verbatim>\<open>Route(ordinal, id, pkt)\<close> chooses the device of the only entry
  registered with \<open>ordinal\<close> when the ordinal is valid, exactly one entry is registered
  with it (done or not) and the device of that entry is not done; otherwise the device
  registered under \<open>id\<close> when there is one and it is not done; otherwise it returns
  \<^verbatim>\<open>ErrNoRoute\<close>. \<^verbatim>\<open>GetUniqueOrdinal\<close> returns nothing for an ordinal with two or more
  entries; when exactly two entries hold an ordinal and one of them is unregistered, it
  returns the device of the other, provided that device is not done. In particular, for
  two live devices with different IDs and the same ordinal added to the empty registry,
  \<^verbatim>\<open>GetUniqueOrdinal\<close> returns nothing, and once the first is done and unregistered it
  returns the second.
\<close>

theorem Route_target_selection:
  "Route reg W deliver ordinal id' pkt =
     (if IsValid ordinal \<and>
         (\<exists>e. ordinalMap reg ordinal = [e] \<and> \<not> IsDone W (device (entry reg e)))
      then deliver (device (entry reg (hd (ordinalMap reg ordinal)))) pkt
      else case map_of (devices reg) id' of
             None \<Rightarrow> Some ErrNoRoute
           | Some e \<Rightarrow>
               if IsDone W (device (entry reg e)) then Some ErrNoRoute
               else deliver (device (entry reg e)) pkt) \<and>
   (2 \<le> length (ordinalMap reg o') \<longrightarrow> GetUniqueOrdinal reg W o' = None) \<and>
   (set (ordinalMap reg o') = {gone, kept} \<and> distinct (ordinalMap reg o') \<and> gone \<noteq> kept \<and>
    registeredOrdinal (entry reg gone) = o' \<and>
    map_of (devices reg) (deviceID (entry reg gone)) = Some gone \<and>
    \<not> IsDone W (device (entry reg kept)) \<longrightarrow>
      GetUniqueOrdinal (unregisterEntry reg gone) W o' = Some (device (entry reg kept))) \<and>
   (\<not> dDone (W' a) \<and> \<not> dDone (W' b) \<and> dID (W' a) \<noteq> dID (W' b) \<and>
    dOrdinal (W' a) = dOrdinal (W' b) \<longrightarrow>
      GetUniqueOrdinal (Add (Add emptyRegistry W' a) W' b) W' (dOrdinal (W' a)) = None \<and>
      GetUniqueOrdinal (unregisterEntry (Add (Add emptyRegistry W' a) W' b) 0) (markDone W' a)
        (dOrdinal (W' a)) = Some b)"
proof (intro conjI impI)
  show "Route reg W deliver ordinal id' pkt =
     (if IsValid ordinal \<and>
         (\<exists>e. ordinalMap reg ordinal = [e] \<and> \<not> IsDone W (device (entry reg e)))
      then deliver (device (entry reg (hd (ordinalMap reg ordinal)))) pkt
      else case map_of (devices reg) id' of
             None \<Rightarrow> Some ErrNoRoute
           | Some e \<Rightarrow>
               if IsDone W (device (entry reg e)) then Some ErrNoRoute
               else deliver (device (entry reg e)) pkt)"
    by (rule Route_char)
next
  assume "2 \<le> length (ordinalMap reg o')"
  then show "GetUniqueOrdinal reg W o' = None" by (rule two_share_general)
next
  assume "set (ordinalMap reg o') = {gone, kept} \<and> distinct (ordinalMap reg o') \<and> gone \<noteq> kept \<and>
    registeredOrdinal (entry reg gone) = o' \<and>
    map_of (devices reg) (deviceID (entry reg gone)) = Some gone \<and>
    \<not> IsDone W (device (entry reg kept))"
  then show "GetUniqueOrdinal (unregisterEntry reg gone) W o' = Some (device (entry reg kept))"
    by (intro survivor_is_unique) simp_all
next
  assume a: "\<not> dDone (W' a) \<and> \<not> dDone (W' b) \<and> dID (W' a) \<noteq> dID (W' b) \<and>
    dOrdinal (W' a) = dOrdinal (W' b)"
  then show "GetUniqueOrdinal (Add (Add emptyRegistry W' a) W' b) W' (dOrdinal (W' a)) = None"
    by (intro two_added_share(1)) simp_all
  from a show "GetUniqueOrdinal (unregisterEntry (Add (Add emptyRegistry W' a) W' b) 0)
      (markDone W' a) (dOrdinal (W' a)) = Some b"
    by (intro two_added_share(2)) simp_all
qed

theorem Route_target_selection_witness:
  "ordinalMap testRegistry ord510 = [0, 1] \<and>
   GetUniqueOrdinal testRegistry testWorld ord510 = None \<and>
   Route testRegistry testWorld (\<lambda>d _. Some (ErrSend d)) ord510 ''d1''
     \<lparr>ID = 0, Command = None, StripStates = []\<rparr> = Some (ErrSend dev1) \<and>
   Route testRegistry testWorld (\<lambda>d _. Some (ErrSend d)) ord510 ''nonexist''
     \<lparr>ID = 0, Command = None, StripStates = []\<rparr> = Some ErrNoRoute \<and>
   GetUniqueOrdinal (unregisterEntry testRegistry 0) (markDone testWorld dev0) ord510 = Some dev1 \<and>
   Route (unregisterEntry testRegistry 0) (markDone testWorld dev0) (\<lambda>d _. Some (ErrSend d))
     ord510 ''nonexist'' \<lparr>ID = 0, Command = None, StripStates = []\<rparr> = Some (ErrSend dev1) \<and>
   GetUniqueOrdinal (unregisterEntry (Add (Add emptyRegistry testWorld dev0) testWorld dev1) 0)
     (markDone testWorld dev0) ord510 = Some dev1"
proof -
  have w: "testWorld dev0 = \<lparr>dID = ''d0'', dOrdinal = ord510, dDone = False\<rparr>"
    "testWorld dev1 = \<lparr>dID = ''d1'', dOrdinal = ord510, dDone = False\<rparr>"
    by (simp_all add: testWorld_def dev0_def dev1_def)
  have v: "IsValid ord510" by (simp add: IsValid_def ord510_def)
  note t1 = Route_target_selection [of testRegistry testWorld "\<lambda>d _. Some (ErrSend d)" ord510
      "''d1''" "\<lparr>ID = 0, Command = None, StripStates = []\<rparr>" ord510 0 1 testWorld dev0 dev1]
  note t2 = Route_target_selection [of testRegistry "markDone testWorld dev0"
      "\<lambda>d _. Some (ErrSend d)" ord510
      "''nonexist''" "\<lparr>ID = 0, Command = None, StripStates = []\<rparr>" ord510 0 1 testWorld dev0 dev1]
  note t3 = Route_target_selection [of "unregisterEntry testRegistry 0" "markDone testWorld dev0"
      "\<lambda>d _. Some (ErrSend d)" ord510
      "''nonexist''" "\<lparr>ID = 0, Command = None, StripStates = []\<rparr>" ord510 0 1 testWorld dev0 dev1]
  note t4 = Route_target_selection [of testRegistry testWorld "\<lambda>d _. Some (ErrSend d)" ord510
      "''nonexist''" "\<lparr>ID = 0, Command = None, StripStates = []\<rparr>" ord510 0 1 testWorld dev0 dev1]
  show ?thesis
    using t1 t2 t3 t4
    by (simp add: testRegistry_facts testRegistry_unregistered markDone_test w v)
qed

end
